(* ===== verification/Prelude.thy ===== *)
theory Prelude
  imports Main "HOL-Library.Word" "HOL-Library.Multiset"
begin

text \<open>
  The shared vocabulary of the development: Go's 64-bit integers written as \<^typ>\<open>int\<close>
  with the wrap-around made explicit, Go's error values, and the lemmas on lists that the
  components share.

  Collections of facts:
  \<^item> \<open>go_int\<close>: the range and congruence laws of the wrap-around;
  \<^item> \<open>trace_simps\<close>: how each operation extends the trace of outside calls;
  \<^item> \<open>ops\<close>: the definitions of the operations, for evaluation on concrete inputs.
\<close>

named_theorems go_int "range and congruence laws of 64-bit wrap-around"
named_theorems trace_simps "how operations extend the trace of outside calls"
named_theorems ops "definitions of the operations, for evaluation"

section \<open>Go integers\<close>

text \<open>
  On the agent's platforms \<open>int\<close> and \<open>int64\<close> are both 64 bits wide. A Go value of either
  type is an \<^typ>\<open>int\<close> within \<open>is_i64\<close>, and every addition and multiplication of
  the source that can leave the range goes through \<open>i64\<close>.
\<close>

definition i64 :: "int \<Rightarrow> int" where
  "i64 x = (x + 2 ^ 63) mod 2 ^ 64 - 2 ^ 63"

definition is_i64 :: "int \<Rightarrow> bool" where
  "is_i64 x \<longleftrightarrow> - (2 ^ 63) \<le> x \<and> x < 2 ^ 63"

lemma i64_range [go_int, simp]: "is_i64 (i64 x)"
proof -
  have "0 \<le> (x + 2 ^ 63) mod 2 ^ 64" and "(x + 2 ^ 63) mod 2 ^ 64 < (2 ^ 64 :: int)"
    by simp_all
  then show ?thesis by (simp add: is_i64_def i64_def)
qed

lemma i64_id [go_int]: "is_i64 x \<Longrightarrow> i64 x = x"
  by (simp add: is_i64_def i64_def)

lemma i64_idem [go_int, simp]: "i64 (i64 x) = i64 x"
  by (simp add: i64_id)

lemma i64_0 [simp]: "i64 0 = 0"
  by (simp add: i64_def)

lemma i64_add_left [go_int]: "i64 (i64 a + b) = i64 (a + b)"
proof -
  have "(i64 a + b + 2 ^ 63) mod 2 ^ 64 = ((a + 2 ^ 63) mod 2 ^ 64 + b) mod (2 ^ 64 :: int)"
    by (simp add: i64_def)
  also have "\<dots> = (a + 2 ^ 63 + b) mod 2 ^ 64"
    by (rule mod_add_left_eq)
  finally show ?thesis
    by (simp add: i64_def ac_simps)
qed

lemma i64_shift: "i64 (x - 2 ^ 64) = i64 x"
proof -
  have "(x - 2 ^ 64 + 2 ^ 63) mod 2 ^ 64 = ((x + 2 ^ 63) - 2 ^ 64) mod (2 ^ 64 :: int)"
    by (simp add: algebra_simps)
  also have "\<dots> = (x + 2 ^ 63) mod 2 ^ 64" by (rule minus_mod_self2)
  finally show ?thesis by (simp only: i64_def)
qed

lemma i64_eq_iff_in_range: "i64 x = x \<longleftrightarrow> is_i64 x"
  using i64_range [of x] by (metis i64_id)

lemma i64_nonneg_less: "0 \<le> x \<Longrightarrow> x < 2 ^ 63 \<Longrightarrow> i64 x = x"
  by (rule i64_id) (simp add: is_i64_def)

text \<open>Go's integer division truncates towards zero.\<close>

definition go_div :: "int \<Rightarrow> int \<Rightarrow> int" where
  "go_div a b = (if 0 \<le> a \<longleftrightarrow> 0 \<le> b then \<bar>a\<bar> div \<bar>b\<bar> else - (\<bar>a\<bar> div \<bar>b\<bar>))"

section \<open>Errors as values\<close>

text \<open>
  What the operating system, the network and the libraries return as an error. The source
  tells two of them apart: \<open>os.IsNotExist\<close> and \<open>syscall.ESRCH\<close>.
\<close>

datatype oserr = NotExist | ESRCH | OsErr string

text \<open>
  The errors of the agent's own code: the two sentinels of the VM manager, a message, an
  outside error, and \<open>fmt.Errorf("msg: %w", err)\<close> as \<open>Wrap msg err\<close>.
\<close>

datatype gerr =
    ErrNoCapacity
  | ErrNotFound
  | ErrSyntax
  | ErrRange
  | CtxDone
  | Msg string
  | Os oserr
  | Wrap string gerr

fun errors_Is :: "gerr \<Rightarrow> gerr \<Rightarrow> bool" where
  "errors_Is (Wrap s e) t = (Wrap s e = t \<or> errors_Is e t)"
| "errors_Is e t = (e = t)"

text \<open>A Go \<open>error\<close> result: \<open>nil\<close> is \<^term>\<open>None\<close>.\<close>

type_synonym error = "gerr option"

definition wrapErr :: "string \<Rightarrow> oserr option \<Rightarrow> error" where
  "wrapErr s e = map_option (\<lambda>x. Wrap s (Os x)) e"

lemma wrapErr_None [simp]: "wrapErr s None = None"
  and wrapErr_Some [simp]: "wrapErr s (Some e) = Some (Wrap s (Os e))"
  and wrapErr_eq_None [simp]: "wrapErr s x = None \<longleftrightarrow> x = None"
  by (simp_all add: wrapErr_def)

text \<open>Go's \<open>v, err := f(); if err != nil { return err }\<close>.\<close>

definition rbind :: "gerr + 'a \<Rightarrow> ('a \<Rightarrow> gerr + 'b) \<Rightarrow> gerr + 'b" where
  "rbind r f = (case r of Inl e \<Rightarrow> Inl e | Inr x \<Rightarrow> f x)"

lemma rbind_Inl [simp]: "rbind (Inl e) f = Inl e"
  and rbind_Inr [simp]: "rbind (Inr x) f = f x"
  by (simp_all add: rbind_def)

lemma rbind_eq_Inr_iff: "rbind r f = Inr y \<longleftrightarrow> (\<exists>x. r = Inr x \<and> f x = Inr y)"
  by (cases r) simp_all

lemma rbind_ok_iff: "(\<exists>y. rbind r f = Inr y) \<longleftrightarrow> (\<exists>x. r = Inr x \<and> (\<exists>y. f x = Inr y))"
  by (cases r) simp_all

section \<open>Lists\<close>

lemma sum_list_mset_eq: "mset xs = mset ys \<Longrightarrow> sum_list (map f xs) = sum_list (map f ys)"
  for f :: "'a \<Rightarrow> int"
  by (metis mset_map sum_mset_sum_list)

lemma sum_list_ge_length:
  "\<forall>x\<in>set xs. 1 \<le> f x \<Longrightarrow> int (length xs) \<le> (\<Sum>x\<leftarrow>xs. f x)"
  by (induction xs) auto

end
