(* ===== verification/Go_Strings.thy ===== *)
theory Go_Strings
  imports Prelude
begin

text \<open>
  The part of Go's standard library that the agent uses on text: \<open>strconv\<close>, \<open>strings\<close>,
  \<open>bufio.Scanner\<close>, \<open>filepath.Join\<close>, \<open>net.JoinHostPort\<close>, \<open>net.SplitHostPort\<close>,
  \<open>net.ParseIP\<close> and \<open>net.IP.String\<close>. A Go string is a byte sequence, here a \<^typ>\<open>string\<close>.
\<close>

section \<open>strconv: decimal integers\<close>

abbreviation byte :: "char \<Rightarrow> nat" where
  "byte c \<equiv> of_char c"

definition digit :: "nat \<Rightarrow> char" where
  "digit d = char_of (48 + d)"

fun nat_digits :: "nat \<Rightarrow> string" where
  "nat_digits n = (if n < 10 then [digit n] else nat_digits (n div 10) @ [digit (n mod 10)])"

declare nat_digits.simps [simp del]

definition Itoa :: "int \<Rightarrow> string" where
  "Itoa i = (if i < 0 then CHR ''-'' # nat_digits (nat (- i)) else nat_digits (nat i))"

definition is_digit :: "char \<Rightarrow> bool" where
  "is_digit c \<longleftrightarrow> 48 \<le> byte c \<and> byte c \<le> 57"

fun digitsVal :: "nat \<Rightarrow> string \<Rightarrow> nat option" where
  "digitsVal acc [] = Some acc"
| "digitsVal acc (c # cs) =
     (if is_digit c then digitsVal (10 * acc + (byte c - 48)) cs else None)"

definition parseDigits :: "string \<Rightarrow> nat option" where
  "parseDigits s = (if s = [] then None else digitsVal 0 s)"

text \<open>
  \<open>strconv.Atoi(s)\<close> and \<open>strconv.ParseInt(s, 10, 64)\<close>: an optional sign, at least one
  digit, nothing else, and the value within 64 bits.
\<close>

definition Atoi :: "string \<Rightarrow> gerr + int" where
  "Atoi s =
     (case s of
        [] \<Rightarrow> Inl ErrSyntax
      | c # cs \<Rightarrow>
          (let neg = (c = CHR ''-'');
               ds = (if c = CHR ''-'' \<or> c = CHR ''+'' then cs else s)
           in case parseDigits ds of
                None \<Rightarrow> Inl ErrSyntax
              | Some n \<Rightarrow>
                  (let v = (if neg then - int n else int n)
                   in if is_i64 v then Inr v else Inl ErrRange)))"

section \<open>strings and bufio\<close>

definition HasPrefix :: "string \<Rightarrow> string \<Rightarrow> bool" where
  "HasPrefix s p \<longleftrightarrow> take (length p) s = p"

fun Contains :: "string \<Rightarrow> string \<Rightarrow> bool" where
  "Contains [] sub = (sub = [])"
| "Contains (c # cs) sub = (HasPrefix (c # cs) sub \<or> Contains cs sub)"

text \<open>
  The number of bytes of the white space rune a string starts with, 0 for none: the runes of
  \<open>unicode.IsSpace\<close> in UTF-8. None of them can start inside another rune, since a lead byte
  is never a continuation byte.
\<close>

definition spaceLen :: "string \<Rightarrow> nat" where
  "spaceLen s =
     (case map byte (take 3 s) of
        [] \<Rightarrow> 0
      | b0 # r0 \<Rightarrow>
          if b0 \<in> {9, 10, 11, 12, 13, 32} then 1
          else (case r0 of
                  [] \<Rightarrow> 0
                | b1 # r1 \<Rightarrow>
                    if b0 = 194 \<and> (b1 = 133 \<or> b1 = 160) then 2
                    else (case r1 of
                            [] \<Rightarrow> 0
                          | b2 # r2 \<Rightarrow>
                              if b0 = 225 \<and> b1 = 154 \<and> b2 = 128
                                 \<or> b0 = 226 \<and> b1 = 128 \<and>
                                     (128 \<le> b2 \<and> b2 \<le> 138 \<or> b2 = 168 \<or> b2 = 169 \<or> b2 = 175)
                                 \<or> b0 = 226 \<and> b1 = 129 \<and> b2 = 159
                                 \<or> b0 = 227 \<and> b1 = 128 \<and> b2 = 128
                              then 3 else 0)))"

function fieldsLoop :: "string \<Rightarrow> string \<Rightarrow> string list" where
  "fieldsLoop s cur =
     (if s = [] then (if cur = [] then [] else [cur])
      else let n = spaceLen s in
        if n = 0 then fieldsLoop (tl s) (cur @ [hd s])
        else (if cur = [] then [] else [cur]) @ fieldsLoop (drop n s) [])"
  by pat_completeness auto
termination
  by (relation "measure (\<lambda>(s, cur). length s)") auto

declare fieldsLoop.simps [simp del]

definition Fields :: "string \<Rightarrow> string list" where
  "Fields s = fieldsLoop s []"

text \<open>
  \<open>bufio.Scanner\<close> with its default split function and buffer: lines end at a newline, one
  trailing carriage return is dropped, and the scan stops at a line of 64 KiB or more.
\<close>

abbreviation nl :: char where
  "nl \<equiv> CHR 0x0A"

definition dropCR :: "string \<Rightarrow> string" where
  "dropCR l = (if l \<noteq> [] \<and> last l = CHR 0x0D then butlast l else l)"

definition maxScanTokenSize :: nat where
  "maxScanTokenSize = 65536"

function scanLines :: "string \<Rightarrow> string list" where
  "scanLines s =
     (if s = [] then []
      else let l = takeWhile (\<lambda>c. c \<noteq> nl) s; rest = dropWhile (\<lambda>c. c \<noteq> nl) s in
        if maxScanTokenSize \<le> length l then [] else dropCR l # scanLines (tl rest))"
  by pat_completeness auto
termination
proof (relation "measure length", goal_cases)
  case 1
  show ?case by simp
next
  case (2 s l rest)
  have "length rest \<le> length s" using 2 by (simp add: length_dropWhile_le)
  moreover have "0 < length s" using 2 by simp
  ultimately have "length rest - 1 < length s" by linarith
  then show ?case by simp
qed

declare scanLines.simps [simp del]

section \<open>filepath\<close>

fun splitOn :: "char \<Rightarrow> string \<Rightarrow> string list" where
  "splitOn d [] = [[]]"
| "splitOn d (c # cs) =
     (if c = d then [] # splitOn d cs
      else (case splitOn d cs of [] \<Rightarrow> [[c]] | h # t \<Rightarrow> (c # h) # t))"

fun joinWith :: "string \<Rightarrow> string list \<Rightarrow> string" where
  "joinWith sep [] = []"
| "joinWith sep [x] = x"
| "joinWith sep (x # y # ys) = x @ sep @ joinWith sep (y # ys)"

text \<open>The second argument is the stack of kept elements, the last one first.\<close>

fun cleanSegs :: "bool \<Rightarrow> string list \<Rightarrow> string list \<Rightarrow> string list" where
  "cleanSegs rooted kept [] = rev kept"
| "cleanSegs rooted kept (x # xs) =
     (if x = '''' \<or> x = ''.'' then cleanSegs rooted kept xs
      else if x = ''..'' then
        (case kept of
           [] \<Rightarrow> cleanSegs rooted (if rooted then [] else [x]) xs
         | k # ks \<Rightarrow> if k = ''..'' then cleanSegs rooted (x # kept) xs
                    else cleanSegs rooted ks xs)
      else cleanSegs rooted (x # kept) xs)"

definition Clean :: "string \<Rightarrow> string" where
  "Clean p =
     (if p = [] then ''.''
      else let rooted = (hd p = CHR ''/'');
               body = joinWith ''/'' (cleanSegs rooted [] (splitOn (CHR ''/'') p))
           in if rooted then CHR ''/'' # body else if body = [] then ''.'' else body)"

definition Join :: "string list \<Rightarrow> string" where
  "Join elems =
     (let ne = dropWhile (\<lambda>e. e = []) elems
      in if ne = [] then [] else Clean (joinWith ''/'' ne))"

text \<open>\<open>filepath.Dir\<close>: everything up to the last separator, cleaned.\<close>

definition Dir :: "string \<Rightarrow> string" where
  "Dir p = Clean (rev (dropWhile (\<lambda>c. c \<noteq> CHR ''/'') (rev p)))"

section \<open>net: host and port\<close>

definition JoinHostPort :: "string \<Rightarrow> string \<Rightarrow> string" where
  "JoinHostPort host port =
     (if CHR '':'' \<in> set host then ''['' @ host @ '']:'' @ port else host @ '':'' @ port)"

text \<open>\<open>lastIndex c s\<close> is the position of the last \<open>c\<close>, \<open>index c s\<close> of the first.\<close>

fun index :: "char \<Rightarrow> string \<Rightarrow> nat option" where
  "index c [] = None"
| "index c (x # xs) = (if x = c then Some 0 else map_option Suc (index c xs))"

fun lastIndex :: "char \<Rightarrow> string \<Rightarrow> nat option" where
  "lastIndex c [] = None"
| "lastIndex c (x # xs) =
     (case lastIndex c xs of
        Some n \<Rightarrow> Some (Suc n)
      | None \<Rightarrow> if x = c then Some 0 else None)"

definition hostPortRest ::
  "string \<Rightarrow> string \<Rightarrow> nat \<Rightarrow> nat \<Rightarrow> nat \<Rightarrow> gerr + (string \<times> string)" where
  "hostPortRest hp host i j k =
     (if CHR ''['' \<in> set (drop j hp) then Inl (Msg ''unexpected [ in address'')
      else if CHR '']'' \<in> set (drop k hp) then Inl (Msg ''unexpected ] in address'')
      else Inr (host, drop (Suc i) hp))"

definition SplitHostPort :: "string \<Rightarrow> gerr + (string \<times> string)" where
  "SplitHostPort hp =
     (case lastIndex (CHR '':'') hp of
        None \<Rightarrow> Inl (Msg ''missing port in address'')
      | Some i \<Rightarrow>
          if hd hp = CHR ''['' then
            (case index (CHR '']'') hp of
               None \<Rightarrow> Inl (Msg ''missing ] in address'')
             | Some e \<Rightarrow>
                 if Suc e = length hp then Inl (Msg ''missing port in address'')
                 else if Suc e = i then hostPortRest hp (take (e - 1) (tl hp)) i 1 (Suc e)
                 else if hp ! Suc e = CHR '':'' then Inl (Msg ''too many colons in address'')
                 else Inl (Msg ''missing port in address''))
          else if CHR '':'' \<in> set (take i hp) then Inl (Msg ''too many colons in address'')
          else hostPortRest hp (take i hp) i 0 0)"

section \<open>Lemmas on decimal text\<close>

lemma digit_numeral [simp]:
  "digit 0 = CHR ''0''"
  "digit 1 = CHR ''1''"
  "digit 2 = CHR ''2''"
  "digit 3 = CHR ''3''"
  "digit 4 = CHR ''4''"
  "digit 5 = CHR ''5''"
  "digit 6 = CHR ''6''"
  "digit 7 = CHR ''7''"
  "digit 8 = CHR ''8''"
  "digit 9 = CHR ''9''"
  "digit (Suc 0) = CHR ''1''"
  by (simp_all add: digit_def char_of_def bit_0)

lemma byte_digit [simp]: "d < 10 \<Longrightarrow> byte (digit d) = 48 + d"
  by (simp add: digit_def)

lemma is_digit_digit [simp]: "d < 10 \<Longrightarrow> is_digit (digit d)"
  by (simp add: is_digit_def)

lemma nat_digits_ne [simp]: "nat_digits n \<noteq> []"
  by (subst nat_digits.simps) simp

lemma nat_digits_are_digits: "c \<in> set (nat_digits n) \<Longrightarrow> is_digit c"
proof (induction n rule: nat_digits.induct)
  case (1 n)
  then show ?case by (subst (asm) (2) nat_digits.simps) (auto split: if_splits)
qed

lemma not_digit_not_in_nat_digits: "\<not> is_digit c \<Longrightarrow> c \<notin> set (nat_digits n)"
  using nat_digits_are_digits by blast

lemma digitsVal_append:
  "digitsVal a (xs @ ys) = Option.bind (digitsVal a xs) (\<lambda>b. digitsVal b ys)"
  by (induction xs arbitrary: a) simp_all

lemma digitsVal_nat_digits [simp]: "digitsVal 0 (nat_digits n) = Some n"
proof (induction n rule: nat_digits.induct)
  case (1 n)
  then show ?case by (subst nat_digits.simps) (simp add: digitsVal_append)
qed

lemma parseDigits_nat_digits [simp]: "parseDigits (nat_digits n) = Some n"
  by (simp add: parseDigits_def)

lemma nat_digits_inj: "nat_digits m = nat_digits n \<longleftrightarrow> m = n"
  by (metis digitsVal_nat_digits option.inject)

lemma nat_digits_hd: "nat_digits n = c # cs \<Longrightarrow> is_digit c"
  by (rule nat_digits_are_digits [of _ n]) simp

lemma sign_not_digit [simp]: "\<not> is_digit CHR ''-''" "\<not> is_digit CHR ''+''"
  by (simp_all add: is_digit_def)

lemma Itoa_inj: "Itoa i = Itoa j \<longleftrightarrow> i = j"
proof -
  have sign: "nat_digits m \<noteq> CHR ''-'' # cs" for m cs
    using nat_digits_hd sign_not_digit(1) by blast
  show ?thesis
    by (auto simp: Itoa_def nat_digits_inj sign sign [symmetric])
qed

lemma Atoi_nat_digits: "Atoi (nat_digits n) = (if is_i64 (int n) then Inr (int n) else Inl ErrRange)"
proof (cases "nat_digits n")
  case (Cons c cs)
  then have "c \<noteq> CHR ''-''" "c \<noteq> CHR ''+''"
    using nat_digits_hd [OF Cons] by auto
  moreover have "parseDigits (c # cs) = Some n"
    using Cons parseDigits_nat_digits [of n] by simp
  ultimately show ?thesis
    by (simp add: Atoi_def Cons)
qed simp

text \<open>\<open>strconv.Atoi\<close> inverts \<open>strconv.Itoa\<close> on every 64-bit integer.\<close>

lemma Atoi_Itoa_inverse: "is_i64 i \<Longrightarrow> Atoi (Itoa i) = Inr i"
proof (cases "i < 0")
  case True
  assume "is_i64 i"
  with True show ?thesis by (simp add: Atoi_def Itoa_def)
next
  case False
  assume "is_i64 i"
  with False show ?thesis by (simp add: Itoa_def Atoi_nat_digits)
qed

lemma Itoa_chars: "c \<in> set (Itoa i) \<Longrightarrow> is_digit c \<or> c = CHR ''-''"
  by (auto simp: Itoa_def nat_digits_are_digits split: if_splits)

lemma Atoi_range: "Atoi s = Inr n \<Longrightarrow> is_i64 n"
  by (auto simp: Atoi_def Let_def split: list.splits option.splits if_splits)

section \<open>Lemmas on host and port\<close>

lemma lastIndex_append_notin:
  "c \<notin> set ys \<Longrightarrow> lastIndex c (xs @ c # ys) = Some (length xs)"
proof (induction xs)
  case Nil
  have "c \<notin> set ys \<Longrightarrow> lastIndex c ys = None" for ys by (induction ys) auto
  with Nil show ?case by simp
qed simp

lemma JoinHostPort_plain: "CHR '':'' \<notin> set h \<Longrightarrow> JoinHostPort h p = h @ '':'' @ p"
  by (simp add: JoinHostPort_def)

lemma SplitHostPort_plain:
  assumes "CHR '':'' \<notin> set h" "CHR ''['' \<notin> set h" "CHR '']'' \<notin> set h"
    and "CHR '':'' \<notin> set p" "CHR ''['' \<notin> set p" "CHR '']'' \<notin> set p"
  shows "SplitHostPort (h @ '':'' @ p) = Inr (h, p)"
proof -
  have "lastIndex (CHR '':'') (h @ '':'' @ p) = Some (length h)"
    using assms(4) lastIndex_append_notin by simp
  moreover have "hd (h @ '':'' @ p) \<noteq> CHR ''[''"
    using assms(2) by (cases h) auto
  ultimately show ?thesis
    using assms by (simp add: SplitHostPort_def hostPortRest_def)
qed

section \<open>Lemmas on paths\<close>

lemma splitOn_ne [simp]: "splitOn d s \<noteq> []"
  by (induction s) (auto split: list.splits)

lemma splitOn_notin: "d \<notin> set s \<Longrightarrow> splitOn d s = [s]"
  by (induction s) auto

lemma splitOn_append: "splitOn d (xs @ d # ys) = splitOn d xs @ splitOn d ys"
proof (induction xs)
  case (Cons x xs)
  then show ?case by (cases "splitOn d xs") auto
qed simp

end
