(* ===== verification/Go_IP.thy ===== *)
theory Go_IP
  imports Go_Strings
begin

text \<open>
  IPv4 addresses as Go's \<open>net\<close> package handles them: the four bytes of a \<open>net.IP\<close> after
  \<open>To4\<close>, big-endian conversion to and from \<open>uint32\<close>, the dotted form, and \<open>net.ParseIP\<close>
  (IPv4, and IPv6 with an embedded or mapped IPv4 address) followed by \<open>To4\<close>.
\<close>

unbundle bit_operations_syntax

datatype ipv4 = IPv4 (b1: "8 word") (b2: "8 word") (b3: "8 word") (b4: "8 word")

section \<open>encoding/binary, big endian\<close>

definition beUint32 :: "ipv4 \<Rightarrow> 32 word" where
  "beUint32 ip =
     (push_bit 24 (ucast (b1 ip)) OR push_bit 16 (ucast (b2 ip))
      OR push_bit 8 (ucast (b3 ip)) OR ucast (b4 ip))"

definition bePutUint32 :: "32 word \<Rightarrow> ipv4" where
  "bePutUint32 v =
     IPv4 (ucast (drop_bit 24 v)) (ucast (drop_bit 16 v)) (ucast (drop_bit 8 v)) (ucast v)"

lemma bit_byte_high: "8 \<le> n \<Longrightarrow> \<not> bit (w :: 8 word) n"
  by (auto dest: bit_imp_le_length)

lemma bePutUint32_beUint32 [simp]: "bePutUint32 (beUint32 ip) = ip"
  by (cases ip) (auto intro!: bit_word_eqI simp: beUint32_def bePutUint32_def bit_simps bit_byte_high)

lemma beUint32_bePutUint32 [simp]: "beUint32 (bePutUint32 v) = v"
proof (rule bit_word_eqI)
  fix n assume "n < LENGTH(32)"
  then consider "n < 8" | "8 \<le> n" "n < 16" | "16 \<le> n" "n < 24" | "24 \<le> n" "n < 32"
    by force
  then show "bit (beUint32 (bePutUint32 v)) n = bit v n"
    by cases (auto simp: beUint32_def bePutUint32_def bit_simps)
qed

lemma bePutUint32_inj: "bePutUint32 v = bePutUint32 w \<longleftrightarrow> v = w"
  by (metis beUint32_bePutUint32)

section \<open>net.IP.String on four bytes\<close>

definition IP_String :: "ipv4 \<Rightarrow> string" where
  "IP_String ip =
     nat_digits (unat (b1 ip)) @ ''.'' @ nat_digits (unat (b2 ip)) @ ''.'' @
     nat_digits (unat (b3 ip)) @ ''.'' @ nat_digits (unat (b4 ip))"

section \<open>net.ParseIP\<close>

text \<open>
  \<open>parseIPv4Fields\<close>: the loop over the bytes, with the current octet, the number of its
  digits, the number of finished octets and the finished octets. An empty octet is seen by
  its digit count, which is 0 at the start and right after a dot.
\<close>

fun parseIPv4Loop :: "string \<Rightarrow> nat \<Rightarrow> nat \<Rightarrow> nat \<Rightarrow> nat list \<Rightarrow> nat list option" where
  "parseIPv4Loop [] val digLen pos fields =
     (if pos < 3 then None else Some (fields @ [val]))"
| "parseIPv4Loop (c # cs) val digLen pos fields =
     (if is_digit c then
        (if digLen = 1 \<and> val = 0 then None
         else let v = val * 10 + (byte c - 48)
              in if 255 < v then None else parseIPv4Loop cs v (Suc digLen) pos fields)
      else if c = CHR ''.'' then
        (if digLen = 0 \<or> cs = [] then None
         else if pos = 3 then None
         else parseIPv4Loop cs 0 0 (Suc pos) (fields @ [val]))
      else None)"

definition parseIPv4Fields :: "string \<Rightarrow> nat list option" where
  "parseIPv4Fields s = parseIPv4Loop s 0 0 0 []"

definition hexVal :: "char \<Rightarrow> nat option" where
  "hexVal c =
     (if is_digit c then Some (byte c - 48)
      else if 97 \<le> byte c \<and> byte c \<le> 102 then Some (byte c - 97 + 10)
      else if 65 \<le> byte c \<and> byte c \<le> 70 then Some (byte c - 65 + 10)
      else None)"

text \<open>One group of hex digits: its length and value, or None for a group that is too long.\<close>

fun hexGroup :: "string \<Rightarrow> nat \<Rightarrow> nat \<Rightarrow> (nat \<times> nat) option" where
  "hexGroup [] off acc = Some (off, acc)"
| "hexGroup (c # cs) off acc =
     (case hexVal c of
        None \<Rightarrow> Some (off, acc)
      | Some d \<Rightarrow>
          (let acc' = acc * 16 + d
           in if 3 < off \<or> 65535 < acc' then None else hexGroup cs (Suc off) acc'))"

text \<open>
  The loop of \<open>parseIPv6\<close>: the rest of the text, the number of bytes written, those bytes, and
  the position of the ellipsis.
\<close>

function parseIPv6Loop ::
  "string \<Rightarrow> nat \<Rightarrow> nat list \<Rightarrow> nat option \<Rightarrow> (string \<times> nat \<times> nat list \<times> nat option) option" where
  "parseIPv6Loop s i ip ell =
     (if 16 \<le> i then Some (s, i, ip, ell)
      else case hexGroup s 0 0 of
        None \<Rightarrow> None
      | Some (off, acc) \<Rightarrow>
          if off = 0 then None
          else let r = drop off s in
            if r \<noteq> [] \<and> hd r = CHR ''.'' then
              (if ell = None \<and> i \<noteq> 12 then None
               else if 16 < i + 4 then None
               else case parseIPv4Fields s of
                      None \<Rightarrow> None
                    | Some f \<Rightarrow> Some ([], i + 4, ip @ f, ell))
            else let ip' = ip @ [acc div 256, acc mod 256]; i' = i + 2 in
              if r = [] then Some ([], i', ip', ell)
              else if hd r \<noteq> CHR '':'' then None
              else if tl r = [] then None
              else let s' = tl r in
                if hd s' = CHR '':'' then
                  (if ell \<noteq> None then None
                   else let s'' = tl s' in
                     if s'' = [] then Some ([], i', ip', Some i')
                     else parseIPv6Loop s'' i' ip' (Some i'))
                else parseIPv6Loop s' i' ip' ell)"
  by pat_completeness auto
termination
  by (relation "measure (\<lambda>(s, i, ip, ell). 16 - i)") auto

declare parseIPv6Loop.simps [simp del]

definition parseIPv6 :: "string \<Rightarrow> nat list option" where
  "parseIPv6 s =
     (if CHR ''%'' \<in> set s then None
      else let lead = HasPrefix s ''::''; s' = (if lead then drop 2 s else s) in
        if lead \<and> s' = [] then Some (replicate 16 0)
        else case parseIPv6Loop s' 0 [] (if lead then Some 0 else None) of
               None \<Rightarrow> None
             | Some (rest, i, ip, ell) \<Rightarrow>
                 if rest \<noteq> [] then None
                 else if i < 16 then
                   (case ell of
                      None \<Rightarrow> None
                    | Some e \<Rightarrow> Some (take e ip @ replicate (16 - i) 0 @ drop e ip))
                 else if ell \<noteq> None then None
                 else Some ip)"

text \<open>
  \<open>net.ParseIP\<close>: the first of dot, colon and percent decides; an IPv4 address becomes the
  IPv4-mapped 16 bytes. A zone is refused, so a percent sign never parses.
\<close>

definition ParseIP :: "string \<Rightarrow> nat list option" where
  "ParseIP s =
     (case filter (\<lambda>c. c \<in> {CHR ''.'', CHR '':'', CHR ''%''}) s of
        [] \<Rightarrow> None
      | c # _ \<Rightarrow>
          if c = CHR ''.'' then
            map_option (\<lambda>f. replicate 10 0 @ [255, 255] @ f) (parseIPv4Fields s)
          else if c = CHR '':'' then parseIPv6 s
          else None)"

text \<open>\<open>net.IP.To4\<close> on 16 bytes; the nil result is \<^term>\<open>None\<close>.\<close>

definition To4 :: "nat list \<Rightarrow> ipv4 option" where
  "To4 ip =
     (if take 12 ip = replicate 10 0 @ [255, 255] then
        (case drop 12 ip of
           [a, b, c, d] \<Rightarrow>
             Some (IPv4 (word_of_nat a) (word_of_nat b) (word_of_nat c) (word_of_nat d))
         | _ \<Rightarrow> None)
      else None)"

section \<open>Parsing the dotted form\<close>

lemma parseIPv4Loop_octet:
  assumes "n < 256"
  shows "parseIPv4Loop (nat_digits n @ rest) 0 0 pos fs =
         parseIPv4Loop rest n (length (nat_digits n)) pos fs"
proof -
  consider "n < 10" | "10 \<le> n" "n < 100" | "100 \<le> n" "n < 256"
    using assms by linarith
  then show ?thesis
  proof cases
    case 1
    then show ?thesis by (simp add: nat_digits.simps [of n])
  next
    case 2
    then have "n div 10 < 10" "n div 10 \<noteq> 0" by auto
    with 2 show ?thesis
      by (simp add: nat_digits.simps [of n] nat_digits.simps [of "n div 10"] Let_def)
  next
    case 3
    then have "n div 10 div 10 < 10" "\<not> n div 10 < 10" "n div 10 div 10 \<noteq> 0"
      "n div 10 \<le> 255" by auto
    with 3 show ?thesis
      by (simp add: nat_digits.simps [of n] nat_digits.simps [of "n div 10"]
        nat_digits.simps [of "n div 10 div 10"] Let_def)
  qed
qed

lemma parseIPv4Fields_dotted:
  assumes "a < 256" "b < 256" "c < 256" "d < 256"
  shows "parseIPv4Fields (nat_digits a @ ''.'' @ nat_digits b @ ''.'' @
           nat_digits c @ ''.'' @ nat_digits d) = Some [a, b, c, d]"
proof -
  have dot: "\<not> is_digit CHR ''.''" by (simp add: is_digit_def)
  have last: "parseIPv4Loop (nat_digits d) 0 0 3 fs = Some (fs @ [d])" for fs
    using parseIPv4Loop_octet [OF assms(4), of "[]" 3 fs] by simp
  show ?thesis
    using assms dot
    by (simp add: parseIPv4Fields_def parseIPv4Loop_octet last numeral_3_eq_3 [symmetric]
      del: parseIPv4Loop.simps(1))
qed

lemma unat_byte: "unat (w :: 8 word) < 256"
  using unsigned_less [of w, where ?'a = nat] by simp

text \<open>\<open>net.ParseIP(ip.String()).To4()\<close> is \<open>ip\<close> again.\<close>

lemma ParseIP_IP_String:
  "\<exists>ip16. ParseIP (IP_String ip) = Some ip16 \<and> To4 ip16 = Some ip"
proof -
  let ?p = "\<lambda>c. c \<in> {CHR ''.'', CHR '':'', CHR ''%''}"
  have "filter ?p (nat_digits n) = []" for n
    by (auto simp: filter_empty_conv not_digit_not_in_nat_digits is_digit_def)
  then have "filter ?p (IP_String ip) = ''...''"
    by (simp add: IP_String_def)
  moreover have "parseIPv4Fields (IP_String ip) =
    Some [unat (b1 ip), unat (b2 ip), unat (b3 ip), unat (b4 ip)]"
    unfolding IP_String_def by (rule parseIPv4Fields_dotted) (rule unat_byte)+
  ultimately show ?thesis
    by (simp add: ParseIP_def To4_def numeral_eq_Suc)
qed

lemma IP_String_inj: "IP_String ip = IP_String ip' \<longleftrightarrow> ip = ip'"
  by (metis ParseIP_IP_String option.inject)

lemma IP_String_chars: "c \<in> set (IP_String ip) \<Longrightarrow> is_digit c \<or> c = CHR ''.''"
  by (auto simp: IP_String_def nat_digits_are_digits)

end
