(* ===== verification/Go_Map.thy ===== *)
theory Go_Map
  imports Prelude "HOL-Library.AList"
begin

text \<open>
  Go maps. The interface is the locale \<open>go_map\<close>: lookup, assignment, \<open>delete\<close> and
  iteration (\<open>for k, v := range m\<close>), whose order Go leaves open. The laws are what
  the agent relies on, and the consequences it needs (sums over an iteration, membership,
  length) are proved once, from the laws. The model's maps are association lists with distinct
  keys; the list order stands for one possible iteration order, and since every theorem holds
  for every such list, it holds for every order.
\<close>

locale go_map =
  fixes lookup :: "'m \<Rightarrow> 'k \<Rightarrow> 'v option"
    and insert :: "'k \<Rightarrow> 'v \<Rightarrow> 'm \<Rightarrow> 'm"
    and delete :: "'k \<Rightarrow> 'm \<Rightarrow> 'm"
    and empty :: 'm
    and entries :: "'m \<Rightarrow> ('k \<times> 'v) list"
    and invar :: "'m \<Rightarrow> bool"
  assumes invar_empty: "invar empty"
    and invar_insert: "invar m \<Longrightarrow> invar (insert k v m)"
    and invar_delete: "invar m \<Longrightarrow> invar (delete k m)"
    and lookup_empty: "lookup empty = Map.empty"
    and lookup_insert: "invar m \<Longrightarrow> lookup (insert k v m) = (lookup m)(k \<mapsto> v)"
    and lookup_delete: "invar m \<Longrightarrow> lookup (delete k m) = (lookup m)(k := None)"
    and entries_distinct: "invar m \<Longrightarrow> distinct (map fst (entries m))"
    and entries_lookup: "invar m \<Longrightarrow> lookup m = map_of (entries m)"
begin

lemma entries_iff: "invar m \<Longrightarrow> (k, v) \<in> set (entries m) \<longleftrightarrow> lookup m k = Some v"
  by (simp add: entries_distinct entries_lookup)

lemma dom_entries: "invar m \<Longrightarrow> dom (lookup m) = fst ` set (entries m)"
  by (simp add: entries_lookup dom_map_of_conv_image_fst)

lemma finite_dom: "invar m \<Longrightarrow> finite (dom (lookup m))"
  by (simp add: dom_entries)

lemma length_entries: "invar m \<Longrightarrow> length (entries m) = card (dom (lookup m))"
  by (metis dom_entries distinct_card entries_distinct length_map list.set_map)

text \<open>A sum over an iteration is a sum over the keys: no order matters.\<close>

lemma sum_entries:
  fixes f :: "'v \<Rightarrow> int"
  assumes "invar m"
  shows "(\<Sum>e\<leftarrow>entries m. f (snd e)) = (\<Sum>k\<in>dom (lookup m). f (the (lookup m k)))"
proof -
  have inj: "inj_on fst (set (entries m))" and dist: "distinct (entries m)"
    using entries_distinct [OF assms] by (simp_all add: distinct_map)
  have "(\<Sum>e\<leftarrow>entries m. f (snd e)) = (\<Sum>e\<in>set (entries m). f (snd e))"
    using dist by (simp add: sum_list_distinct_conv_sum_set)
  also have "\<dots> = (\<Sum>e\<in>set (entries m). f (the (lookup m (fst e))))"
    by (intro sum.cong refl) (metis entries_iff [OF assms] option.sel prod.collapse)
  also have "\<dots> = (\<Sum>k\<in>fst ` set (entries m). f (the (lookup m k)))"
    using inj by (simp add: sum.reindex)
  finally show ?thesis
    by (simp add: dom_entries [OF assms])
qed

lemma sum_insert_fresh:
  fixes f :: "'v \<Rightarrow> int"
  assumes "invar m" "lookup m k = None"
  shows "(\<Sum>e\<leftarrow>entries (insert k v m). f (snd e)) = (\<Sum>e\<leftarrow>entries m. f (snd e)) + f v"
proof -
  have "k \<notin> dom (lookup m)" using assms(2) by auto
  then have "(\<Sum>j\<in>dom (lookup m). f (the (((lookup m)(k \<mapsto> v)) j))) =
      (\<Sum>j\<in>dom (lookup m). f (the (lookup m j)))"
    by (intro sum.cong) auto
  then show ?thesis
    using assms finite_dom [OF assms(1)] \<open>k \<notin> dom (lookup m)\<close>
    by (simp add: sum_entries invar_insert lookup_insert)
qed

lemma sum_delete:
  fixes f :: "'v \<Rightarrow> int"
  assumes "invar m" "lookup m k = Some v"
  shows "(\<Sum>e\<leftarrow>entries (delete k m). f (snd e)) = (\<Sum>e\<leftarrow>entries m. f (snd e)) - f v"
proof -
  have dom: "dom ((lookup m)(k := None)) = dom (lookup m) - {k}" by auto
  have "(\<Sum>j\<in>dom (lookup m) - {k}. f (the (((lookup m)(k := None)) j))) =
      (\<Sum>j\<in>dom (lookup m) - {k}. f (the (lookup m j)))"
    by (intro sum.cong) auto
  then have "(\<Sum>e\<leftarrow>entries (delete k m). f (snd e)) =
      (\<Sum>j\<in>dom (lookup m) - {k}. f (the (lookup m j)))"
    using assms(1) dom by (simp add: sum_entries invar_delete lookup_delete)
  also have "\<dots> = (\<Sum>j\<in>dom (lookup m). f (the (lookup m j))) - f v"
    using assms finite_dom [OF assms(1)] by (subst sum_diff1) (auto simp: domI)
  finally show ?thesis
    using assms(1) by (simp add: sum_entries)
qed

end

section \<open>The model's maps\<close>

type_synonym ('k, 'v) gomap = "('k \<times> 'v) list"

abbreviation mget :: "('k, 'v) gomap \<Rightarrow> 'k \<Rightarrow> 'v option" where
  "mget \<equiv> map_of"

abbreviation mput :: "'k \<Rightarrow> 'v \<Rightarrow> ('k, 'v) gomap \<Rightarrow> ('k, 'v) gomap" where
  "mput \<equiv> AList.update"

abbreviation mdel :: "'k \<Rightarrow> ('k, 'v) gomap \<Rightarrow> ('k, 'v) gomap" where
  "mdel \<equiv> AList.delete"

definition wf_map :: "('k, 'v) gomap \<Rightarrow> bool" where
  "wf_map m \<longleftrightarrow> distinct (map fst m)"

interpretation gm: go_map map_of AList.update AList.delete "[]" "\<lambda>m. m" wf_map
  by unfold_locales
    (auto simp: wf_map_def distinct_update distinct_delete update_conv' delete_conv')

declare gm.invar_empty [simp] gm.invar_insert [simp] gm.invar_delete [simp]

lemma mget_mput: "mget (mput k v m) k' = (if k' = k then Some v else mget m k')"
  by (simp add: update_conv')

lemma mget_mdel: "mget (mdel k m) k' = (if k' = k then None else mget m k')"
  by (simp add: delete_conv')

lemma mdel_mput_fresh: "mget m k = None \<Longrightarrow> mdel k (mput k v m) = m"
  by (induction m) (auto simp: AList.delete_eq split: if_splits intro!: filter_True)

lemma mdel_absent: "mget m k = None \<Longrightarrow> mdel k m = m"
  by (induction m) (auto split: if_splits)

end
