(* ===== verification/World.thy ===== *)
theory World
  imports Go_IP Go_Map "HOL-Library.Monad_Syntax"
begin

text \<open>
  The world outside the agent's code. Every call the agent makes to the operating system, to
  netlink, to another program or to the Firecracker SDK is a value of \<open>call\<close>. A \<open>trace\<close> is
  the calls made so far, each with its error result. The outside answers through an \<open>env\<close>
  record, whose fields are functions of the trace so far: nothing is assumed about them
  here, so an answer may depend on everything that happened before, and a theorem that needs
  documented behaviour of the outside (a clock that moves on, a file that reads back as it was
  written) states it as a hypothesis on the \<open>env\<close>.
\<close>

section \<open>File contents\<close>

text \<open>
  A JSON document as \<open>encoding/json\<close> sees it. \<open>JReal\<close> is a number literal with a
  fraction or an exponent, which no integer field accepts.
\<close>

datatype json =
    JNull
  | JBool bool
  | JInt int
  | JReal string
  | JStr string
  | JArr "json list"
  | JObj "(string \<times> json) list"

text \<open>The bytes of a file or body: those of a JSON document, or any others.\<close>

datatype content = Doc json | Text string

section \<open>Calls to the outside\<close>

text \<open>
  The part of \<open>firecracker.Config\<close> that \<open>FirecrackerBackend.Boot\<close> fills in, with the one
  drive and the one network interface flattened, and the binary of the process runner it is
  started with.
\<close>

record FcConfig =
  FcBinary :: string
  SocketPath :: string
  LogPath :: string
  LogLevel :: string
  FcKernelImagePath :: string
  KernelArgs :: string
  DriveID :: string
  PathOnHost :: string
  IsRootDevice :: bool
  IsReadOnly :: bool
  HostDevName :: string
  IPAddr :: ipv4
  IPMaskBits :: nat
  Gateway :: ipv4
  Nameservers :: "string list"
  VcpuCount :: int
  MemSizeMib :: int
  VMID :: string

text \<open>A Firecracker machine is named by the length of the trace when it was made.\<close>

type_synonym machine = nat

datatype call =
    TimeNow
  | MkdirAll string
  | ReadDir string
  | ReadFile string
  | WriteFile string content
  | RemoveAll string
  | Remove string
  | Stat string
  | OpenFile string
  | Exec string "string list"
  | LinkAdd string
  | AddrAdd string ipv4 nat
  | LinkSetUp string
  | LinkByName string
  | LinkDel string
  | PtyOpen
  | PtmxClose
  | TtyClose
  | NewMachine FcConfig
  | MachineStart machine
  | MachinePID machine
  | StopVMM machine
  | MachineCancel machine
  | Kill int
  | DialTimeout string int
  | ConnClose
  | SelectAfter int
  | HttpDo string string "(string \<times> string) list" content
  | AssertHijacker
  | Hijack
  | SetDeadline
  | BufWrite string
  | BufFlush
  | PipeBoth
  | ClientClose

type_synonym trace = "(call \<times> oserr option) list"

section \<open>Answers from the outside\<close>

record env =
  e_now :: "trace \<Rightarrow> int"
  e_err :: "trace \<Rightarrow> call \<Rightarrow> oserr option"
  e_readDir :: "trace \<Rightarrow> string \<Rightarrow> oserr + (string \<times> bool) list"
  e_readFile :: "trace \<Rightarrow> string \<Rightarrow> oserr + content"
  e_readText :: "trace \<Rightarrow> string \<Rightarrow> oserr + string"
  e_pid :: "trace \<Rightarrow> machine \<Rightarrow> int \<times> oserr option"
  e_http :: "trace \<Rightarrow> call \<Rightarrow> oserr + (int \<times> content)"
  e_zone :: int
  e_numCPU :: int
  e_meminfo :: "trace \<Rightarrow> string option"
  e_pipeEnds :: "trace \<Rightarrow> bool"

text \<open>
  \<open>e_pipeEnds\<close>: whether one of the two directions of a pipe that was started by \<open>PipeBoth\<close> ever comes to its end.
\<close>

text \<open>A call whose only result is an error.\<close>

definition perform :: "env \<Rightarrow> call \<Rightarrow> trace \<Rightarrow> oserr option \<times> trace" where
  "perform env c tr = (let e = e_err env tr c in (e, tr @ [(c, e)]))"

definition timeNow :: "env \<Rightarrow> trace \<Rightarrow> int \<times> trace" where
  "timeNow env tr = (e_now env tr, tr @ [(TimeNow, None)])"

fun errOf :: "oserr + 'a \<Rightarrow> oserr option" where
  "errOf (Inl e) = Some e"
| "errOf (Inr _) = None"

definition readDir :: "env \<Rightarrow> string \<Rightarrow> trace \<Rightarrow> (oserr + (string \<times> bool) list) \<times> trace" where
  "readDir env p tr = (let r = e_readDir env tr p in (r, tr @ [(ReadDir p, errOf r)]))"

definition readFile :: "env \<Rightarrow> string \<Rightarrow> trace \<Rightarrow> (oserr + content) \<times> trace" where
  "readFile env p tr = (let r = e_readFile env tr p in (r, tr @ [(ReadFile p, errOf r)]))"

definition readText :: "env \<Rightarrow> string \<Rightarrow> trace \<Rightarrow> (oserr + string) \<times> trace" where
  "readText env p tr = (let r = e_readText env tr p in (r, tr @ [(ReadFile p, errOf r)]))"

definition httpDo :: "env \<Rightarrow> call \<Rightarrow> trace \<Rightarrow> (oserr + (int \<times> content)) \<times> trace" where
  "httpDo env c tr = (let r = e_http env tr c in (r, tr @ [(c, errOf r)]))"

lemmas outside_defs [ops] = perform_def timeNow_def readDir_def readFile_def readText_def httpDo_def

text \<open>
  A call whose error is dropped (\<open>_ = f()\<close>), and a list of such calls in order.
\<close>

definition performIgnore :: "env \<Rightarrow> call \<Rightarrow> trace \<Rightarrow> trace" where
  "performIgnore env c tr = snd (perform env c tr)"

lemma performIgnore_eq [trace_simps]: "performIgnore env c tr = tr @ [(c, e_err env tr c)]"
  by (simp add: performIgnore_def perform_def Let_def)

text \<open>
  A world for examples: every call succeeds, each call takes a nanosecond, no file is there to
  be read, and the host has four CPUs and 8 GiB of memory.
\<close>

definition calm :: env where
  "calm =
     \<lparr>e_now = \<lambda>tr. int (length tr), e_err = \<lambda>_ _. None, e_readDir = \<lambda>_ _. Inl NotExist,
      e_readFile = \<lambda>_ _. Inl NotExist, e_readText = \<lambda>_ _. Inl NotExist,
      e_pid = \<lambda>_ _. (4711, None), e_http = \<lambda>_ _. Inl NotExist, e_zone = 0, e_numCPU = 4, 
      e_meminfo = \<lambda>_. Some (''MemTotal: 8388608 kB'' @ [nl]), e_pipeEnds = \<lambda>_. True\<rparr>"

section \<open>Extending a trace\<close>

text \<open>
  \<open>extends P tr tr'\<close>: the second trace is the first followed by calls that all satisfy \<open>P\<close>.
\<close>

definition extends :: "(call \<Rightarrow> bool) \<Rightarrow> trace \<Rightarrow> trace \<Rightarrow> bool" where
  "extends P tr tr' \<longleftrightarrow> (\<exists>ev. tr' = tr @ ev \<and> (\<forall>c\<in>set ev. P (fst c)))"

lemma extends_refl [simp, intro]: "extends P tr tr"
  by (simp add: extends_def)

lemma extends_snoc: "extends P tr tr' \<Longrightarrow> P c \<Longrightarrow> extends P tr (tr' @ [(c, e)])"
  by (auto simp: extends_def)

lemma extends_trans: "extends P tr tr' \<Longrightarrow> extends P tr' tr'' \<Longrightarrow> extends P tr tr''"
  by (auto simp: extends_def)

lemma extends_mono: "extends P tr tr' \<Longrightarrow> (\<And>c. P c \<Longrightarrow> Q c) \<Longrightarrow> extends Q tr tr'"
  by (auto simp: extends_def)

lemma extends_one: "P c \<Longrightarrow> extends P tr (tr @ [(c, e)])"
  by (simp add: extends_def)

lemma extends_D: "extends P tr tr' \<Longrightarrow> \<exists>ev. tr' = tr @ ev"
  by (auto simp: extends_def)

lemma extends_perform: "P c \<Longrightarrow> extends P tr (snd (perform env c tr))"
  by (simp add: perform_def Let_def extends_one)

section \<open>Clocks\<close>

text \<open>
  What Go documents of the clock and of \<open>time.After\<close>: time does not run backwards, and a timer
  of duration \<open>d\<close> that has fired means that at least \<open>d\<close> has passed.
\<close>

definition clock_ok :: "env \<Rightarrow> bool" where
  "clock_ok env \<longleftrightarrow>
     (\<forall>tr c e. e_now env tr \<le> e_now env (tr @ [(c, e)])) \<and>
     (\<forall>tr d. e_now env tr + d \<le> e_now env (tr @ [(SelectAfter d, None)]))"

lemma clock_mono: "clock_ok env \<Longrightarrow> e_now env tr \<le> e_now env (tr @ ev)"
proof (induction ev rule: rev_induct)
  case (snoc x xs)
  then have "e_now env (tr @ xs) \<le> e_now env ((tr @ xs) @ [x])"
    by (cases x) (simp only: clock_ok_def)
  with snoc show ?case by simp
qed simp

lemma clock_timer: "clock_ok env \<Longrightarrow> e_now env tr + d \<le> e_now env (tr @ [(SelectAfter d, None)])"
  by (simp add: clock_ok_def)

end
