(* ===== verification/Config.thy ===== *)
theory Config
  imports Go_IP
begin

text \<open>
  \<open>internal/config/config.go\<close>: the agent's configuration, read from the environment. The
  environment is a function from names to values, the empty string for an unset name, as
  \<open>os.Getenv\<close> returns it.
\<close>

type_synonym environ = "string \<Rightarrow> string"

record Config =
  ListenAddr :: string
  AgentToken :: string
  SchedulerURL :: string
  HeartbeatInterval :: int
  GoldenImagePath :: string
  KernelImagePath :: string
  FirecrackerBinary :: string
  VMStateDir :: string
  HostReservedRamMb :: int
  DefaultTTLMinutes :: int
  ReaperIntervalSeconds :: int
  TapIPBase :: ipv4
  DockerPortBase :: int
  WireguardCIDR :: string
  BandwidthCapMbit :: int
  RegistryMirrorURL :: string
  RegistryMetricsURL :: string

definition requiredString :: "environ \<Rightarrow> string \<Rightarrow> gerr + string" where
  "requiredString getenv name =
     (let v = getenv name
      in if v = [] then Inl (Msg (''missing required env var '' @ name)) else Inr v)"

definition intEnv :: "environ \<Rightarrow> string \<Rightarrow> int \<Rightarrow> gerr + int" where
  "intEnv getenv name def =
     (let v = getenv name
      in if v = [] then Inr def
         else case Atoi v of
                Inl e \<Rightarrow> Inl (Wrap (''invalid '' @ name) e)
              | Inr n \<Rightarrow> Inr n)"

definition envOr :: "environ \<Rightarrow> string \<Rightarrow> string \<Rightarrow> string" where
  "envOr getenv name def = (let v = getenv name in if v \<noteq> [] then v else def)"

definition time_Second :: int where
  "time_Second = 1000000000"

definition Load :: "environ \<Rightarrow> gerr + Config" where
  "Load getenv =
     rbind (requiredString getenv ''LISTEN_ADDR'') (\<lambda>listenAddr.
     rbind (requiredString getenv ''AGENT_TOKEN'') (\<lambda>agentToken.
     rbind (requiredString getenv ''SCHEDULER_URL'') (\<lambda>schedulerURL.
     rbind (requiredString getenv ''GOLDEN_IMAGE_PATH'') (\<lambda>goldenImagePath.
     rbind (requiredString getenv ''KERNEL_IMAGE_PATH'') (\<lambda>kernelImagePath.
     rbind (requiredString getenv ''TAP_IP_BASE'') (\<lambda>tapIPBase.
     case Option.bind (ParseIP tapIPBase) To4 of
       None \<Rightarrow> Inl (Msg (''TAP_IP_BASE '' @ [CHR 0x22] @ tapIPBase @ [CHR 0x22] @ '' is not a valid IPv4 address''))
     | Some ip \<Rightarrow>
     rbind (requiredString getenv ''WIREGUARD_CIDR'') (\<lambda>wireguardCIDR.
     rbind (intEnv getenv ''HEARTBEAT_INTERVAL_SECONDS'' 20) (\<lambda>heartbeatSeconds.
     rbind (intEnv getenv ''HOST_RESERVED_RAM_MB'' 8192) (\<lambda>hostReserved.
     rbind (intEnv getenv ''DEFAULT_TTL_MINUTES'' 60) (\<lambda>defaultTTL.
     rbind (intEnv getenv ''REAPER_INTERVAL_SECONDS'' 30) (\<lambda>reaperInterval.
     rbind (intEnv getenv ''DOCKER_PORT_BASE'' 10000) (\<lambda>dockerPortBase.
     rbind (intEnv getenv ''BANDWIDTH_CAP_MBIT'' 200) (\<lambda>bandwidthCap.
     Inr \<lparr>
       ListenAddr = listenAddr,
       AgentToken = agentToken,
       SchedulerURL = schedulerURL,
       HeartbeatInterval = i64 (heartbeatSeconds * time_Second),
       GoldenImagePath = goldenImagePath,
       KernelImagePath = kernelImagePath,
       FirecrackerBinary = envOr getenv ''FIRECRACKER_BINARY'' ''/usr/local/bin/firecracker'',
       VMStateDir = envOr getenv ''VM_STATE_DIR'' ''/var/lib/devplat/vms'',
       HostReservedRamMb = hostReserved,
       DefaultTTLMinutes = defaultTTL,
       ReaperIntervalSeconds = reaperInterval,
       TapIPBase = ip,
       DockerPortBase = dockerPortBase,
       WireguardCIDR = wireguardCIDR,
       BandwidthCapMbit = bandwidthCap,
       RegistryMirrorURL = envOr getenv ''REGISTRY_MIRROR_URL'' '''',
       RegistryMetricsURL =
         envOr getenv ''REGISTRY_METRICS_URL'' ''http://127.0.0.1:5001/debug/vars''\<rparr>)))))))))))))"

lemmas config_defs [ops] = requiredString_def intEnv_def envOr_def time_Second_def Load_def

section \<open>When loading succeeds\<close>

definition required_names :: "string list" where
  "required_names =
     [''LISTEN_ADDR'', ''AGENT_TOKEN'', ''SCHEDULER_URL'', ''GOLDEN_IMAGE_PATH'',
      ''KERNEL_IMAGE_PATH'', ''TAP_IP_BASE'', ''WIREGUARD_CIDR'']"

definition int_names :: "string list" where
  "int_names =
     [''HEARTBEAT_INTERVAL_SECONDS'', ''HOST_RESERVED_RAM_MB'', ''DEFAULT_TTL_MINUTES'',
      ''REAPER_INTERVAL_SECONDS'', ''DOCKER_PORT_BASE'', ''BANDWIDTH_CAP_MBIT'']"

lemma requiredString_Inr_iff [simp]:
  "requiredString getenv n = Inr v \<longleftrightarrow> v = getenv n \<and> getenv n \<noteq> []"
  by (auto simp: requiredString_def Let_def)

lemma intEnv_Inr_iff:
  "intEnv getenv n d = Inr v \<longleftrightarrow>
     (if getenv n = [] then v = d else Atoi (getenv n) = Inr v)"
  by (auto simp: intEnv_def Let_def split: sum.splits)

lemma intEnv_ok_iff:
  "(\<exists>v. intEnv getenv n d = Inr v) \<longleftrightarrow> getenv n = [] \<or> (\<exists>v. Atoi (getenv n) = Inr v)"
  by (auto simp: intEnv_Inr_iff)

definition parseBase :: "string \<Rightarrow> ipv4 option" where
  "parseBase s = Option.bind (ParseIP s) To4"

lemma parseBase_String [simp]: "parseBase (IP_String ip) = Some ip"
  using ParseIP_IP_String [of ip] by (auto simp: parseBase_def)

lemma Load_ok_iff:
  "(\<exists>cfg. Load getenv = Inr cfg) \<longleftrightarrow>
     list_all (\<lambda>n. getenv n \<noteq> []) required_names \<and>
     parseBase (getenv ''TAP_IP_BASE'') \<noteq> None \<and>
     list_all (\<lambda>n. getenv n = [] \<or> (\<exists>v. Atoi (getenv n) = Inr v)) int_names"
proof (cases "parseBase (getenv ''TAP_IP_BASE'')")
  case None
  then show ?thesis
    by (simp add: Load_def parseBase_def [symmetric] rbind_ok_iff)
next
  case (Some ip)
  then show ?thesis
    by (simp add: Load_def parseBase_def [symmetric] rbind_ok_iff intEnv_ok_iff
      required_names_def int_names_def)
qed

lemma Load_fields:
  assumes "Load getenv = Inr cfg"
  shows "RegistryMetricsURL cfg = envOr getenv ''REGISTRY_METRICS_URL'' ''http://127.0.0.1:5001/debug/vars''"
    "intEnv getenv ''REAPER_INTERVAL_SECONDS'' 30 = Inr (ReaperIntervalSeconds cfg)"
    "\<exists>n. intEnv getenv ''HEARTBEAT_INTERVAL_SECONDS'' 20 = Inr n \<and> HeartbeatInterval cfg = i64 (n * time_Second)"
  using assms by (auto simp: Load_def rbind_eq_Inr_iff split: option.splits)

text \<open>
  C34. Loading succeeds exactly when every required variable is set, the tap base parses
  as an IPv4 address, and every numeric variable that is set is a decimal 64-bit integer; no
  other value of the environment can make it fail.
\<close>

theorem Load_succeeds_iff:
  "(\<exists>cfg. Load getenv = Inr cfg) \<longleftrightarrow>
     list_all (\<lambda>n. getenv n \<noteq> []) required_names \<and>
     parseBase (getenv ''TAP_IP_BASE'') \<noteq> None \<and>
     list_all (\<lambda>n. getenv n = [] \<or> (\<exists>v. Atoi (getenv n) = Inr v)) int_names"
  by (rule Load_ok_iff)

text \<open>An environment for the examples, with one more variable set.\<close>

definition example_environ :: "string \<Rightarrow> string \<Rightarrow> environ" where
  "example_environ name v n =
     (if n = name then v
      else if n = ''TAP_IP_BASE'' then IP_String (IPv4 172 20 0 0)
      else if n \<in> set required_names then ''x'' else [])"

lemma Load_example:
  assumes "name \<notin> set required_names" "name \<in> set int_names" "Atoi v = Inr k" "v \<noteq> []"
  shows "\<exists>cfg. Load (example_environ name v) = Inr cfg"
proof -
  have "example_environ name v ''TAP_IP_BASE'' = IP_String (IPv4 172 20 0 0)"
    using assms(1) by (auto simp: example_environ_def required_names_def)
  moreover have "list_all (\<lambda>n. example_environ name v n \<noteq> []) required_names"
    using assms(1,4) by (auto simp: required_names_def example_environ_def IP_String_def)
  moreover have "list_all (\<lambda>n. example_environ name v n = [] \<or> (\<exists>k. Atoi (example_environ name v n) = Inr k)) int_names"
    using assms(2,3) by (auto simp: list_all_iff example_environ_def required_names_def int_names_def)
  ultimately show ?thesis by (simp only: Load_ok_iff) simp
qed

text \<open>
  Whatever the environment, a configuration that loads has a URL to scrape the cache's metrics
  from: an empty \<open>REGISTRY_METRICS_URL\<close> counts as not set and gives the default, so that the
  scraping cannot be turned off.
\<close>

theorem metrics_never_disabled:
  assumes "Load getenv = Inr cfg"
  shows "RegistryMetricsURL cfg \<noteq> [] \<and>
    (getenv ''REGISTRY_METRICS_URL'' = [] \<longrightarrow> RegistryMetricsURL cfg = ''http://127.0.0.1:5001/debug/vars'')"
  using Load_fields(1) [OF assms] by (simp add: envOr_def Let_def split: if_splits)

theorem metrics_never_disabled_witness:
  "\<exists>cfg. Load (example_environ ''BANDWIDTH_CAP_MBIT'' ''7'') = Inr cfg \<and>
     RegistryMetricsURL cfg = ''http://127.0.0.1:5001/debug/vars''"
proof -
  have "Atoi ''7'' = Inr 7" by code_simp
  then obtain cfg where l: "Load (example_environ ''BANDWIDTH_CAP_MBIT'' ''7'') = Inr cfg"
    using Load_example [of "''BANDWIDTH_CAP_MBIT''" "''7''"] by (auto simp: required_names_def int_names_def)
  from metrics_never_disabled [OF l] l show ?thesis by (simp add: example_environ_def required_names_def)
qed

end
