(* ===== verification/Network.thy ===== *)
theory Network
  imports World Config
begin

text \<open>
  \<open>internal/vmmanager/network.go\<close>: the network plan of a slot, and the tap device, firewall
  and bandwidth set-up and tear-down for it. The tap device goes through netlink calls, the
  rest through \<open>iptables\<close>, \<open>sysctl\<close> and \<open>tc\<close>, each an outside call.
\<close>

unbundle bit_operations_syntax

section \<open>The plan of a slot\<close>

record NetConfig =
  NSlot :: int
  TapName :: string
  HostIP :: ipv4
  GuestIP :: ipv4
  MaskBits :: nat
  DockerPort :: int

definition uint32ToIP :: "32 word \<Rightarrow> ipv4" where
  "uint32ToIP v = bePutUint32 v"

definition deriveNetConfig :: "Config \<Rightarrow> int \<Rightarrow> NetConfig" where
  "deriveNetConfig cfg slot =
     (let base = beUint32 (TapIPBase cfg);
          block = base + word_of_int slot * 4
      in \<lparr>NSlot = slot,
          TapName = ''fc-tap-'' @ Itoa slot,
          HostIP = uint32ToIP (block + 1),
          GuestIP = uint32ToIP (block + 2),
          MaskBits = 30,
          DockerPort = i64 (DockerPortBase cfg + slot)\<rparr>)"

section \<open>Tap device\<close>

definition setupTapDevice :: "env \<Rightarrow> NetConfig \<Rightarrow> trace \<Rightarrow> error \<times> trace" where
  "setupTapDevice env nc tr =
     (let name = TapName nc; (e, tr) = perform env (LinkAdd name) tr in
      case e of
        Some x \<Rightarrow> (Some (Wrap (''create tap '' @ name) (Os x)), tr)
      | None \<Rightarrow>
          (let (e, tr) = perform env (AddrAdd name (HostIP nc) (MaskBits nc)) tr in
           case e of
             Some x \<Rightarrow>
               (Some (Wrap (''assign '' @ IP_String (HostIP nc) @ '' to '' @ name) (Os x)),
                performIgnore env (LinkDel name) tr)
           | None \<Rightarrow>
               (let (e, tr) = perform env (LinkSetUp name) tr in
                case e of
                  Some x \<Rightarrow>
                    (Some (Wrap (''bring up '' @ name) (Os x)),
                     performIgnore env (LinkDel name) tr)
                | None \<Rightarrow> (None, tr))))"

definition teardownTapDevice :: "env \<Rightarrow> NetConfig \<Rightarrow> trace \<Rightarrow> error \<times> trace" where
  "teardownTapDevice env nc tr =
     (let (e, tr) = perform env (LinkByName (TapName nc)) tr in
      case e of
        Some _ \<Rightarrow> (None, tr)
      | None \<Rightarrow>
          (let (e, tr) = perform env (LinkDel (TapName nc)) tr in (map_option Os e, tr)))"

section \<open>Firewall and bandwidth\<close>

definition runCmd :: "env \<Rightarrow> string \<Rightarrow> string list \<Rightarrow> trace \<Rightarrow> error \<times> trace" where
  "runCmd env name args tr =
     (let (e, tr) = perform env (Exec name args) tr in (wrapErr name e, tr))"

definition setupFirewallSteps :: "Config \<Rightarrow> NetConfig \<Rightarrow> string list list" where
  "setupFirewallSteps cfg nc =
     (let port = Itoa (DockerPort nc);
          wg = WireguardCIDR cfg;
          tap = TapName nc;
          guest = IP_String (GuestIP nc)
      in [[''-t'', ''nat'', ''-A'', ''PREROUTING'', ''-p'', ''tcp'', ''-s'', wg,
            ''--dport'', port, ''-j'', ''DNAT'', ''--to-destination'', guest @ '':2375''],
          [''-t'', ''nat'', ''-A'', ''POSTROUTING'', ''-s'', guest @ ''/32'', ''!'', ''-o'', tap,
            ''-j'', ''MASQUERADE''],
          [''-A'', ''INPUT'', ''-p'', ''tcp'', ''--dport'', port, ''!'', ''-s'', wg, ''-j'', ''DROP''],
          [''-A'', ''FORWARD'', ''-s'', wg, ''-o'', tap, ''-j'', ''ACCEPT''],
          [''-A'', ''FORWARD'', ''-o'', tap, ''-m'', ''state'', ''--state'', ''NEW'',
            ''!'', ''-s'', wg, ''-j'', ''DROP''],
          [''-A'', ''FORWARD'', ''-o'', tap, ''-m'', ''state'', ''--state'', ''ESTABLISHED,RELATED'',
            ''-j'', ''ACCEPT''],
          [''-A'', ''FORWARD'', ''-i'', tap, ''-j'', ''ACCEPT'']])"

fun runSteps :: "env \<Rightarrow> string list list \<Rightarrow> trace \<Rightarrow> error \<times> trace" where
  "runSteps env [] tr = (None, tr)"
| "runSteps env (args # steps) tr =
     (case runCmd env ''iptables'' args tr of
        (Some err, tr) \<Rightarrow> (Some err, tr)
      | (None, tr) \<Rightarrow> runSteps env steps tr)"

definition setupFirewall :: "env \<Rightarrow> Config \<Rightarrow> NetConfig \<Rightarrow> trace \<Rightarrow> error \<times> trace" where
  "setupFirewall env cfg nc tr =
     (case runCmd env ''sysctl'' [''-w'', ''net.ipv4.ip_forward=1''] tr of
        (Some err, tr) \<Rightarrow> (Some (Wrap ''enable ip_forward'' err), tr)
      | (None, tr) \<Rightarrow> runSteps env (setupFirewallSteps cfg nc) tr)"

definition teardownFirewallSteps :: "Config \<Rightarrow> NetConfig \<Rightarrow> string list list" where
  "teardownFirewallSteps cfg nc =
     (let port = Itoa (DockerPort nc);
          wg = WireguardCIDR cfg;
          tap = TapName nc;
          guest = IP_String (GuestIP nc)
      in [[''-t'', ''nat'', ''-D'', ''PREROUTING'', ''-p'', ''tcp'', ''-s'', wg,
            ''--dport'', port, ''-j'', ''DNAT'', ''--to-destination'', guest @ '':2375''],
          [''-t'', ''nat'', ''-D'', ''POSTROUTING'', ''-s'', guest @ ''/32'', ''!'', ''-o'', tap,
            ''-j'', ''MASQUERADE''],
          [''-D'', ''INPUT'', ''-p'', ''tcp'', ''--dport'', port, ''!'', ''-s'', wg, ''-j'', ''DROP''],
          [''-D'', ''FORWARD'', ''-s'', wg, ''-o'', tap, ''-j'', ''ACCEPT''],
          [''-D'', ''FORWARD'', ''-o'', tap, ''-m'', ''state'', ''--state'', ''NEW'',
            ''!'', ''-s'', wg, ''-j'', ''DROP''],
          [''-D'', ''FORWARD'', ''-o'', tap, ''-m'', ''state'', ''--state'', ''ESTABLISHED,RELATED'',
            ''-j'', ''ACCEPT''],
          [''-D'', ''FORWARD'', ''-i'', tap, ''-j'', ''ACCEPT'']])"

text \<open>Every command runs; the first error is the result.\<close>

fun runAllSteps :: "env \<Rightarrow> string list list \<Rightarrow> error \<Rightarrow> trace \<Rightarrow> error \<times> trace" where
  "runAllSteps env [] firstErr tr = (firstErr, tr)"
| "runAllSteps env (args # steps) firstErr tr =
     (let (err, tr) = runCmd env ''iptables'' args tr
      in runAllSteps env steps (if err \<noteq> None \<and> firstErr = None then err else firstErr) tr)"

definition teardownFirewall :: "env \<Rightarrow> Config \<Rightarrow> NetConfig \<Rightarrow> trace \<Rightarrow> error \<times> trace" where
  "teardownFirewall env cfg nc tr = runAllSteps env (teardownFirewallSteps cfg nc) None tr"

definition setupBandwidthCap :: "env \<Rightarrow> NetConfig \<Rightarrow> int \<Rightarrow> trace \<Rightarrow> error \<times> trace" where
  "setupBandwidthCap env nc mbit tr =
     (if mbit \<le> 0 then (None, tr)
      else runCmd env ''tc'' [''qdisc'', ''add'', ''dev'', TapName nc, ''root'', ''tbf'',
             ''rate'', Itoa mbit @ ''mbit'', ''burst'', ''32kbit'', ''latency'', ''400ms''] tr)"

lemmas network_defs [ops] =
  uint32ToIP_def deriveNetConfig_def setupTapDevice_def teardownTapDevice_def runCmd_def
  setupFirewallSteps_def setupFirewall_def teardownFirewallSteps_def teardownFirewall_def
  setupBandwidthCap_def

section \<open>Distinct slots have disjoint plans\<close>

text \<open>The address at an offset from the pool's base.\<close>

definition poolAddr :: "Config \<Rightarrow> int \<Rightarrow> ipv4" where
  "poolAddr cfg k = bePutUint32 (beUint32 (TapIPBase cfg) + word_of_int k)"

lemma NetConfig_simps [simp]:
  "NSlot (deriveNetConfig cfg slot) = slot"
  "TapName (deriveNetConfig cfg slot) = ''fc-tap-'' @ Itoa slot"
  "HostIP (deriveNetConfig cfg slot) = poolAddr cfg (4 * slot + 1)"
  "GuestIP (deriveNetConfig cfg slot) = poolAddr cfg (4 * slot + 2)"
  "MaskBits (deriveNetConfig cfg slot) = 30"
  "DockerPort (deriveNetConfig cfg slot) = i64 (DockerPortBase cfg + slot)"
  by (simp_all add: deriveNetConfig_def uint32ToIP_def poolAddr_def Let_def algebra_simps)

lemma word32_of_int_inj:
  assumes "0 \<le> a" "a < 2 ^ 32" "0 \<le> b" "b < 2 ^ 32"
  shows "(word_of_int a :: 32 word) = word_of_int b \<longleftrightarrow> a = b"
proof
  assume "(word_of_int a :: 32 word) = word_of_int b"
  then have "uint (word_of_int a :: 32 word) = uint (word_of_int b :: 32 word)" by simp
  with assms show "a = b" by (simp add: uint_word_of_int)
qed simp

lemma poolAddr_inj:
  "0 \<le> a \<Longrightarrow> a < 2 ^ 32 \<Longrightarrow> 0 \<le> b \<Longrightarrow> b < 2 ^ 32 \<Longrightarrow> poolAddr cfg a = poolAddr cfg b \<longleftrightarrow> a = b"
  using word32_of_int_inj [of a b] by (simp add: poolAddr_def bePutUint32_inj)

lemma i64_add_inj: "\<bar>a - b\<bar> < 2 ^ 64 \<Longrightarrow> i64 (x + a) = i64 (x + b) \<longleftrightarrow> a = b"
proof
  assume small: "\<bar>a - b\<bar> < 2 ^ 64" and "i64 (x + a) = i64 (x + b)"
  then have "(x + a + 2 ^ 63) mod 2 ^ 64 = (x + b + 2 ^ 63) mod (2 ^ 64 :: int)"
    by (simp add: i64_def)
  then have "(2 ^ 64 :: int) dvd (x + a + 2 ^ 63) - (x + b + 2 ^ 63)"
    by (simp only: mod_eq_dvd_iff)
  then have "(2 ^ 64 :: int) dvd a - b" by simp
  with small show "a = b"
    using zdvd_imp_le [of "2 ^ 64" "\<bar>a - b\<bar>"] by auto
qed simp

text \<open>
  C27. The plans of two different slots below \<open>2^30\<close> share nothing: tap name, host
  address, guest address and Docker port all differ, and no slot's host address is another
  slot's guest address.
\<close>

theorem deriveNetConfig_disjoint:
  assumes "0 \<le> a" "a < 2 ^ 30" "0 \<le> b" "b < 2 ^ 30" "a \<noteq> b"
  shows "TapName (deriveNetConfig cfg a) \<noteq> TapName (deriveNetConfig cfg b) \<and>
         {HostIP (deriveNetConfig cfg a), GuestIP (deriveNetConfig cfg a)} \<inter>
         {HostIP (deriveNetConfig cfg b), GuestIP (deriveNetConfig cfg b)} = {} \<and>
         DockerPort (deriveNetConfig cfg a) \<noteq> DockerPort (deriveNetConfig cfg b)"
proof (intro conjI)
  show "TapName (deriveNetConfig cfg a) \<noteq> TapName (deriveNetConfig cfg b)"
    using assms(5) by (simp add: Itoa_inj)
  have "4 * a + i \<noteq> 4 * b + j" if "i \<in> {1, 2}" "j \<in> {1, 2}" for i j :: int
    using assms(5) that by (auto; presburger)
  then show "{HostIP (deriveNetConfig cfg a), GuestIP (deriveNetConfig cfg a)} \<inter>
      {HostIP (deriveNetConfig cfg b), GuestIP (deriveNetConfig cfg b)} = {}"
    using assms by (auto simp: poolAddr_inj)
  show "DockerPort (deriveNetConfig cfg a) \<noteq> DockerPort (deriveNetConfig cfg b)"
    using assms by (simp add: i64_add_inj)
qed

text \<open>A configuration for the examples.\<close>

definition example_cfg :: Config where
  "example_cfg =
     \<lparr>ListenAddr = ''10.10.0.2:7777'', AgentToken = ''secret'', SchedulerURL = ''https://api'',
      HeartbeatInterval = 20000000000, GoldenImagePath = ''/img/rootfs.ext4'',
      KernelImagePath = ''/img/vmlinux'', FirecrackerBinary = ''/usr/local/bin/firecracker'',
      VMStateDir = ''/vms'', HostReservedRamMb = 0, DefaultTTLMinutes = 60,
      ReaperIntervalSeconds = 30, TapIPBase = IPv4 172 20 0 0, DockerPortBase = 10000,
      WireguardCIDR = ''10.10.0.0/24'', BandwidthCapMbit = 200, RegistryMirrorURL = [],
      RegistryMetricsURL = ''http://127.0.0.1:5001/debug/vars''\<rparr>"

theorem deriveNetConfig_disjoint_witness:
  "TapName (deriveNetConfig example_cfg 3) \<noteq> TapName (deriveNetConfig example_cfg 4) \<and>
   {HostIP (deriveNetConfig example_cfg 3), GuestIP (deriveNetConfig example_cfg 3)} \<inter>
   {HostIP (deriveNetConfig example_cfg 4), GuestIP (deriveNetConfig example_cfg 4)} = {} \<and>
   DockerPort (deriveNetConfig example_cfg 3) \<noteq> DockerPort (deriveNetConfig example_cfg 4)"
  by (rule deriveNetConfig_disjoint) simp_all

section \<open>A slot's addresses lie in the host's pool\<close>

text \<open>The \<open>/n\<close> network of an address: its upper \<open>n\<close> bits.\<close>

definition netOf :: "nat \<Rightarrow> ipv4 \<Rightarrow> nat" where
  "netOf n ip = unat (beUint32 ip) div 2 ^ (32 - n)"

lemma unat_base_plus:
  fixes base :: "32 word"
  assumes "unat base + k < 2 ^ 32"
  shows "unat (base + word_of_nat k) = unat base + k"
proof -
  have "unat (base + word_of_nat k) = (unat base + k) mod 2 ^ 32"
    by (simp add: unat_word_ariths unat_of_nat mod_simps)
  with assms show ?thesis by simp
qed

text \<open>
  When the base is the first address of a \<open>/16\<close> pool, the 16384 slots from 0 up all
  stay inside that pool, a slot's host and guest addresses are the first and second host of
  one common \<open>/30\<close>, and that \<open>/30\<close> is the slot's own.
\<close>

theorem deriveNetConfig_in_pool:
  assumes "unat (beUint32 (TapIPBase cfg)) mod 2 ^ 16 = 0" "0 \<le> slot" "slot < 16384"
  shows "netOf 16 (HostIP (deriveNetConfig cfg slot)) = netOf 16 (TapIPBase cfg) \<and>
         netOf 16 (GuestIP (deriveNetConfig cfg slot)) = netOf 16 (TapIPBase cfg) \<and>
         netOf 30 (HostIP (deriveNetConfig cfg slot)) = netOf 30 (TapIPBase cfg) + nat slot \<and>
         netOf 30 (GuestIP (deriveNetConfig cfg slot)) = netOf 30 (TapIPBase cfg) + nat slot"
proof -
  define base where "base = unat (beUint32 (TapIPBase cfg))"
  define s where "s = nat slot"
  have slot: "slot = int s" and s: "s < 16384" using assms(2,3) by (simp_all add: s_def)
  have "base < 2 ^ 32"
    unfolding base_def using unsigned_less [of "beUint32 (TapIPBase cfg)", where ?'a = nat] by simp
  moreover obtain q where q: "base = 65536 * q"
    using assms(1) unfolding base_def [symmetric] by (auto simp: dvd_def mod_eq_0_iff_dvd)
  ultimately have "q < 65536" by simp
  then have bound: "base + (4 * s + i) < 2 ^ 32" if "i < 4" for i
    using that s q by simp
  have word: "word_of_int (4 * slot + int i) = (word_of_nat (4 * s + i) :: 32 word)" for i
    unfolding slot by simp
  have addr: "unat (beUint32 (poolAddr cfg (4 * slot + int i))) = base + (4 * s + i)" if "i < 4" for i
    unfolding poolAddr_def word beUint32_bePutUint32 base_def
    by (rule unat_base_plus) (use bound [OF that] base_def in simp)
  have div: "(base + (4 * s + i)) div 65536 = base div 65536"
      "(base + (4 * s + i)) div 4 = base div 4 + s" if "i < 4" for i
    using s that unfolding q by (simp, intro div_nat_eqI, simp_all)
  show ?thesis
    using addr [of 1] addr [of 2] div [of 1] div [of 2]
    by (simp add: netOf_def base_def s_def)
qed

theorem deriveNetConfig_in_pool_witness:
  "netOf 16 (GuestIP (deriveNetConfig example_cfg 16383)) = netOf 16 (IPv4 172 20 0 0)"
  using deriveNetConfig_in_pool [of example_cfg 16383]
  by (simp add: example_cfg_def beUint32_def)

end
