(* ===== verification/Go_Time.thy ===== *)
theory Go_Time
  imports Go_Strings
begin

text \<open>
  The part of Go's \<open>time\<close> package that \<open>encoding/json\<close> uses for a \<open>time.Time\<close>: the RFC 3339
  text with nanoseconds (\<open>MarshalJSON\<close>) and its parser (\<open>parseRFC3339\<close>, the form every
  marshalled time has). An instant is its number of nanoseconds since the Unix epoch, a zone its
  offset from UTC in minutes.
\<close>

section \<open>The calendar\<close>

definition isLeap :: "int \<Rightarrow> bool" where
  "isLeap y \<longleftrightarrow> y mod 4 = 0 \<and> (y mod 100 \<noteq> 0 \<or> y mod 400 = 0)"

text \<open>Days from 1 January of the year 0 to 1 January of a year.\<close>

definition daysBeforeYear :: "int \<Rightarrow> int" where
  "daysBeforeYear y = 365 * y + (y + 3) div 4 - (y + 99) div 100 + (y + 399) div 400"

definition daysIn :: "int \<Rightarrow> int \<Rightarrow> int" where
  "daysIn m y =
     (if m = 2 then (if isLeap y then 29 else 28)
      else if m \<in> {4, 6, 9, 11} then 30 else 31)"

lemma ceil_div_le: "(0::int) \<le> y \<Longrightarrow> 0 \<le> j \<Longrightarrow> k = j + 1 \<Longrightarrow> (y + j) div k \<le> y"
proof -
  assume "0 \<le> y" "0 \<le> j" and k: "k = j + 1"
  then have "y + j \<le> j + y * k" by (simp add: algebra_simps)
  then have "(y + j) div k \<le> (j + y * k) div k"
    using k \<open>0 \<le> j\<close> by (intro zdiv_mono1) auto
  also have "\<dots> = y" using k \<open>0 \<le> j\<close> by simp
  finally show ?thesis .
qed

lemma daysBeforeYear_bounds:
  assumes "0 \<le> y"
  shows "y \<le> daysBeforeYear y" "daysBeforeYear y \<le> 366 * y"
proof -
  define a b c where "a = (y + 3) div 4" and "b = (y + 99) div 100" and "c = (y + 399) div 400"
  have "0 \<le> a" "0 \<le> b" "0 \<le> c" using assms by (simp_all add: a_def b_def c_def)
  moreover have "a \<le> y" "b \<le> y" unfolding a_def b_def using assms by (simp_all add: ceil_div_le)
  moreover have "c = (b + 3) div 4"
  proof -
    have "c = ((y + 99) + 3 * 100) div 100 div 4"
      by (simp add: c_def zdiv_zmult2_eq [of 4 _ 100, simplified])
    also have "\<dots> = (b + 3) div 4" unfolding b_def by (subst div_mult_self1) simp_all
    finally show ?thesis .
  qed
  with \<open>0 \<le> b\<close> have "c \<le> b" by (simp add: ceil_div_le)
  ultimately show "y \<le> daysBeforeYear y" "daysBeforeYear y \<le> 366 * y"
    using assms unfolding daysBeforeYear_def a_def [symmetric] b_def [symmetric] c_def [symmetric]
    by linarith+
qed

function yearLoop :: "int \<Rightarrow> int \<Rightarrow> int" where
  "yearLoop y d = (if 0 \<le> y \<and> daysBeforeYear (y + 1) \<le> d then yearLoop (y + 1) d else y)"
  by pat_completeness auto
termination
proof (relation "measure (\<lambda>(y, d). nat (d - y))", goal_cases)
  case (2 y d)
  then have "y + 1 \<le> daysBeforeYear (y + 1)" by (simp add: daysBeforeYear_bounds)
  with 2 show ?case by simp
qed simp

function monthLoop :: "int \<Rightarrow> int \<Rightarrow> int \<Rightarrow> int \<times> int" where
  "monthLoop m r y =
     (if m < 12 \<and> daysIn m y \<le> r then monthLoop (m + 1) (r - daysIn m y) y else (m, r + 1))"
  by pat_completeness auto
termination
  by (relation "measure (\<lambda>(m, r, y). nat (12 - m))") auto

declare yearLoop.simps [simp del] monthLoop.simps [simp del]

text \<open>Year, month and day of the day with a given number, counted from the year 0.\<close>

definition civil :: "int \<Rightarrow> int \<times> int \<times> int" where
  "civil d =
     (let y = yearLoop (d div 366) d; (m, dd) = monthLoop 1 (d - daysBeforeYear y) y
      in (y, m, dd))"

fun daysBeforeMonth :: "nat \<Rightarrow> int \<Rightarrow> int" where
  "daysBeforeMonth 0 y = 0"
| "daysBeforeMonth (Suc m) y = (if m = 0 then 0 else daysBeforeMonth m y + daysIn (int m) y)"

definition dayNumber :: "int \<Rightarrow> int \<Rightarrow> int \<Rightarrow> int" where
  "dayNumber y m dd = daysBeforeYear y + daysBeforeMonth (nat m) y + (dd - 1)"

definition epochDay :: int where
  "epochDay = 719528"

section \<open>Formatting\<close>

fun padN :: "nat \<Rightarrow> nat \<Rightarrow> string" where
  "padN 0 n = []"
| "padN (Suc k) n = padN k (n div 10) @ [digit (n mod 10)]"

definition dropZeros :: "string \<Rightarrow> string" where
  "dropZeros s = rev (dropWhile (\<lambda>c. c = CHR ''0'') (rev s))"

definition formatZone :: "int \<Rightarrow> string" where
  "formatZone z =
     (if z = 0 then ''Z''
      else (if z < 0 then ''-'' else ''+'') @ padN 2 (nat (\<bar>z\<bar> div 60)) @ '':'' @ padN 2 (nat (\<bar>z\<bar> mod 60)))"

text \<open>The instant as the calendar and the clock of the zone show it.\<close>

definition localDay :: "int \<Rightarrow> int \<Rightarrow> int" where
  "localDay z t = (t div 1000000000 + 60 * z) div 86400 + epochDay"

definition localSec :: "int \<Rightarrow> int \<Rightarrow> int" where
  "localSec z t = (t div 1000000000 + 60 * z) mod 86400"

definition formatRFC3339 :: "int \<Rightarrow> int \<Rightarrow> string" where
  "formatRFC3339 z t =
     (let (y, m, dd) = civil (localDay z t); s = localSec z t; ns = nat (t mod 1000000000)
      in padN 4 (nat y) @ ''-'' @ padN 2 (nat m) @ ''-'' @ padN 2 (nat dd) @ ''T'' @
         padN 2 (nat (s div 3600)) @ '':'' @ padN 2 (nat (s div 60 mod 60)) @ '':'' @
         padN 2 (nat (s mod 60)) @
         (if ns = 0 then [] else ''.'' @ dropZeros (padN 9 ns)) @ formatZone z)"

text \<open>\<open>MarshalJSON\<close> refuses a year of more than four digits and a negative one.\<close>

text \<open>
  \<open>time.Duration.String\<close>, as in \<open>1h15m30.918s\<close>. The micro sign of durations below a
  millisecond is its two UTF-8 bytes.
\<close>

definition withFrac :: "nat \<Rightarrow> nat \<Rightarrow> string" where
  "withFrac prec v =
     (let frac = dropZeros (padN prec (v mod 10 ^ prec)) in
      nat_digits (v div 10 ^ prec) @ (if frac = [] then [] else ''.'' @ frac))"

definition Duration_String :: "int \<Rightarrow> string" where
  "Duration_String d =
     (let u = nat \<bar>d\<bar>; sec = u div 10 ^ 9; m = sec div 60; h = m div 60;
          s = (if u = 0 then ''0s''
               else if u < 10 ^ 3 then withFrac 0 u @ ''ns''
               else if u < 10 ^ 6 then withFrac 3 u @ [char_of (194::nat), char_of (181::nat)] @ ''s''
               else if u < 10 ^ 9 then withFrac 6 u @ ''ms''
               else (if 0 < h then nat_digits h @ ''h'' else []) @
                    (if 0 < m then nat_digits (m mod 60) @ ''m'' else []) @
                    withFrac 9 (u mod (60 * 10 ^ 9)) @ ''s'')
      in (if d < 0 then ''-'' else []) @ s)"

definition yearOk :: "int \<Rightarrow> int \<Rightarrow> bool" where
  "yearOk z t \<longleftrightarrow> 0 \<le> localDay z t \<and> localDay z t < daysBeforeYear 10000"

section \<open>Parsing\<close>

definition parseUint :: "string \<Rightarrow> int \<Rightarrow> int \<Rightarrow> int option" where
  "parseUint s lo hi =
     (case digitsVal 0 s of
        None \<Rightarrow> None
      | Some n \<Rightarrow> if lo \<le> int n \<and> int n \<le> hi then Some (int n) else None)"

text \<open>The digits after the point: at most nine of them count.\<close>

definition parseNanoseconds :: "string \<Rightarrow> int" where
  "parseNanoseconds ds =
     (let k = take 9 ds in int (the (digitsVal 0 k)) * 10 ^ (9 - length k))"

definition parseZone :: "string \<Rightarrow> int option" where
  "parseZone s =
     (if s = ''Z'' then Some 0
      else case s of
        [sg, h1, h2, c, m1, m2] \<Rightarrow>
          (case (parseUint [h1, h2] 0 23, parseUint [m1, m2] 0 59) of
             (Some hr, Some mm) \<Rightarrow>
               if (sg = CHR ''-'' \<or> sg = CHR ''+'') \<and> c = CHR '':''
               then Some (if sg = CHR ''-'' then - (hr * 60 + mm) else hr * 60 + mm)
               else None
           | _ \<Rightarrow> None)
      | _ \<Rightarrow> None)"

definition parseTail :: "string \<Rightarrow> (int \<times> int) option" where
  "parseTail s =
     (let ds = (if take 1 s = ''.'' then takeWhile is_digit (tl s) else []);
          ns = (if ds = [] then 0 else parseNanoseconds ds);
          rest = (if ds = [] then s else drop (Suc (length ds)) s)
      in map_option (\<lambda>z. (ns, z)) (parseZone rest))"

definition parseRFC3339 :: "string \<Rightarrow> int option" where
  "parseRFC3339 s =
     (case s of
        y1 # y2 # y3 # y4 # p1 # m1 # m2 # p2 # d1 # d2 # p3 # h1 # h2 # p4 # i1 # i2 # p5 # s1 # s2 # rest \<Rightarrow>
          Option.bind (parseUint [y1, y2, y3, y4] 0 9999) (\<lambda>year.
          Option.bind (parseUint [m1, m2] 1 12) (\<lambda>month.
          Option.bind (parseUint [d1, d2] 1 (daysIn month year)) (\<lambda>day.
          Option.bind (parseUint [h1, h2] 0 23) (\<lambda>hour.
          Option.bind (parseUint [i1, i2] 0 59) (\<lambda>mi.
          Option.bind (parseUint [s1, s2] 0 59) (\<lambda>sec.
          if p1 = CHR ''-'' \<and> p2 = CHR ''-'' \<and> p3 = CHR ''T'' \<and> p4 = CHR '':'' \<and> p5 = CHR '':'' then
            Option.bind (parseTail rest) (\<lambda>(ns, z).
              Some (((dayNumber year month day - epochDay) * 86400
                     + hour * 3600 + mi * 60 + sec - 60 * z) * 1000000000 + ns))
          else None))))))
      | _ \<Rightarrow> None)"

section \<open>The calendar inverts\<close>

lemma ceil_div_step:
  assumes "(0::int) \<le> j" "k = j + 1"
  shows "(y + 1 + j) div k = (y + j) div k + (if y mod k = 0 then 1 else 0)"
proof -
  define q r where "q = y div k" and "r = y mod k"
  have k: "0 < k" "j = k - 1" using assms by simp_all
  then have y: "y = q * k + r" and r: "0 \<le> r" "r < k"
    by (simp_all add: q_def r_def)
  have "y + 1 + j = r + (q + 1) * k" using k y by (simp add: algebra_simps)
  then have "(y + 1 + j) div k = q + 1" using r k by simp
  moreover have "y + j = (r + j) + q * k" using y by simp
  then have "(y + j) div k = q + (r + j) div k" using k(1) by (metis div_mult_self1 less_irrefl)
  moreover have "(r + j) div k = (if r = 0 then 0 else 1)"
  proof (cases "r = 0")
    case False
    then have "r + j = (r - 1) + 1 * k" using k by simp
    then have "(r + j) div k = 1 + (r - 1) div k" using k by (simp only: div_mult_self1)
    with False r show ?thesis by simp
  qed (use assms in simp)
  ultimately show ?thesis by (simp add: r_def)
qed

lemma daysBeforeYear_Suc: "daysBeforeYear (y + 1) = daysBeforeYear y + (if isLeap y then 366 else 365)"
proof -
  define p q r where "p \<longleftrightarrow> y mod 4 = 0" and "q \<longleftrightarrow> y mod 100 = 0" and "r \<longleftrightarrow> y mod 400 = 0"
  have "r \<Longrightarrow> q" "q \<Longrightarrow> p"
    by (auto simp: p_def q_def r_def mod_eq_0_iff_dvd elim: dvd_trans [rotated])
  moreover define a b c where "a = (y + 3) div 4" and "b = (y + 99) div 100" and "c = (y + 399) div 400"
  define a' b' c' where "a' = (y + 1 + 3) div 4" and "b' = (y + 1 + 99) div 100"
    and "c' = (y + 1 + 399) div 400"
  have "a' = a + (if p then 1 else 0)" "b' = b + (if q then 1 else 0)" "c' = c + (if r then 1 else 0)"
    unfolding p_def q_def r_def a_def b_def c_def a'_def b'_def c'_def by (rule ceil_div_step; simp)+
  moreover have "daysBeforeYear y = 365 * y + a - b + c" "daysBeforeYear (y + 1) = 365 * (y + 1) + a' - b' + c'"
    by (simp_all only: daysBeforeYear_def a_def b_def c_def a'_def b'_def c'_def)
  moreover have "isLeap y \<longleftrightarrow> p \<and> (\<not> q \<or> r)" by (simp add: isLeap_def p_def q_def r_def)
  ultimately show ?thesis by (cases p; cases q; cases r) simp_all
qed

lemma yearLoop_bounds:
  "0 \<le> y \<Longrightarrow> daysBeforeYear y \<le> d \<Longrightarrow>
   0 \<le> yearLoop y d \<and> daysBeforeYear (yearLoop y d) \<le> d \<and> d < daysBeforeYear (yearLoop y d + 1)"
proof (induction y d rule: yearLoop.induct)
  case (1 y d)
  then show ?case by (simp add: yearLoop.simps [of y d])
qed

lemma start_year: "0 \<le> d \<Longrightarrow> daysBeforeYear (d div 366) \<le> d"
proof -
  assume "0 \<le> d"
  define q where "q = d div 366"
  have q: "0 \<le> q" "366 * q \<le> d" using \<open>0 \<le> d\<close> by (auto simp: q_def)
  have "daysBeforeYear q \<le> 366 * q"
    using q(1) by (rule daysBeforeYear_bounds)
  with q show ?thesis by (simp add: q_def [symmetric])
qed

lemma daysIn_pos: "28 \<le> daysIn m y" "daysIn m y \<le> 31"
  by (auto simp: daysIn_def)

lemma monthLoop_spec:
  assumes "1 \<le> m" "m \<le> 12" "0 \<le> r" "monthLoop m r y = (m', dd)"
  shows "m \<le> m' \<and> m' \<le> 12 \<and> 1 \<le> dd \<and> (m' < 12 \<longrightarrow> dd \<le> daysIn m' y) \<and>
    daysBeforeMonth (nat m) y + r = daysBeforeMonth (nat m') y + (dd - 1)"
  using assms
proof (induction m r y rule: monthLoop.induct)
  case (1 m r y)
  show ?case
  proof (cases "m < 12 \<and> daysIn m y \<le> r")
    case True
    with "1.prems" have "monthLoop (m + 1) (r - daysIn m y) y = (m', dd)"
      by (simp add: monthLoop.simps [of m])
    with True "1.IH" "1.prems" have "m + 1 \<le> m' \<and> m' \<le> 12 \<and> 1 \<le> dd \<and> (m' < 12 \<longrightarrow> dd \<le> daysIn m' y) \<and>
        daysBeforeMonth (nat (m + 1)) y + (r - daysIn m y) = daysBeforeMonth (nat m') y + (dd - 1)"
      by simp
    moreover have "nat (m + 1) = Suc (nat m)" "nat m \<noteq> 0" "int (nat m) = m"
      using "1.prems" by auto
    ultimately show ?thesis by auto
  next
    case False
    with "1.prems" show ?thesis by (auto simp: monthLoop.simps [of m])
  qed
qed

lemma year_length: "daysBeforeMonth 12 y + daysIn 12 y = (if isLeap y then 366 else 365)"
  by (simp add: daysIn_def numeral_eq_Suc)

lemma civil_inverts:
  assumes "0 \<le> d" "civil d = (y, m, dd)"
  shows "dayNumber y m dd = d" "0 \<le> y" "1 \<le> m" "m \<le> 12" "1 \<le> dd" "dd \<le> daysIn m y"
    "daysBeforeYear y \<le> d"
proof -
  have y: "y = yearLoop (d div 366) d" using assms(2) by (simp add: civil_def Let_def split: prod.splits)
  have b: "0 \<le> y" "daysBeforeYear y \<le> d" "d < daysBeforeYear y + (if isLeap y then 366 else 365)"
    using yearLoop_bounds [OF _ start_year [OF assms(1)]] assms(1)
    by (auto simp: y daysBeforeYear_Suc [symmetric])
  have "monthLoop 1 (d - daysBeforeYear y) y = (m, dd)"
    using assms(2) by (simp add: civil_def y Let_def split: prod.splits)
  from monthLoop_spec [OF _ _ _ this] b have
    m: "1 \<le> m" "m \<le> 12" "1 \<le> dd" "m < 12 \<longrightarrow> dd \<le> daysIn m y"
      "d - daysBeforeYear y = daysBeforeMonth (nat m) y + (dd - 1)" by auto
  then show "dayNumber y m dd = d" "0 \<le> y" "1 \<le> m" "m \<le> 12" "1 \<le> dd" "daysBeforeYear y \<le> d"
    using b by (auto simp: dayNumber_def)
  show "dd \<le> daysIn m y"
  proof (cases "m = 12")
    case True
    then have "dd - 1 < daysIn 12 y" using m(5) b(3) year_length [of y] by (auto split: if_splits)
    with True show ?thesis by simp
  qed (use m in auto)
qed

lemma daysBeforeYear_mono: "a \<le> b \<Longrightarrow> daysBeforeYear a \<le> daysBeforeYear b"
proof (induction b rule: int_ge_induct)
  case (step i)
  then show ?case using daysBeforeYear_Suc [of i] by (auto split: if_splits)
qed simp

lemma year_below:
  assumes "daysBeforeYear y \<le> d" "d < daysBeforeYear n"
  shows "y < n"
  using daysBeforeYear_mono [of n y] assms by linarith

section \<open>The text inverts\<close>

lemma length_padN [simp]: "length (padN k n) = k"
  by (induction k arbitrary: n) simp_all

lemma digitsVal_padN: "digitsVal 0 (padN k n) = Some (n mod 10 ^ k)"
proof (induction k arbitrary: n)
  case (Suc k)
  have "10 * (n div 10 mod 10 ^ k) + n mod 10 = n mod 10 ^ Suc k"
    by (simp add: mod_mult2_eq [of n 10 "10 ^ k"])
  with Suc show ?case by (simp add: digitsVal_append)
qed simp

lemma padN_digits: "c \<in> set (padN k n) \<Longrightarrow> is_digit c"
  by (induction k arbitrary: n) auto

lemma parseUint_padN:
  "0 \<le> v \<Longrightarrow> v < 10 ^ k \<Longrightarrow> lo \<le> v \<Longrightarrow> v \<le> hi \<Longrightarrow> parseUint (padN k (nat v)) lo hi = Some v"
  by (simp add: parseUint_def digitsVal_padN nat_mod_distrib nat_less_iff)

lemma padN_2E:
  assumes "0 \<le> v" "lo \<le> v" "v \<le> hi" "v < 100"
  obtains a b where "padN 2 (nat v) = [a, b]" "parseUint [a, b] lo hi = Some v"
proof -
  have "length (padN 2 (nat v)) = Suc (Suc 0)" by simp
  then obtain a b where ab: "padN 2 (nat v) = [a, b]"
    by (auto simp only: length_Suc_conv length_0_conv)
  moreover have "parseUint (padN 2 (nat v)) lo hi = Some v" using assms by (intro parseUint_padN) auto
  ultimately show thesis using that by simp
qed

lemma padN_4E:
  assumes "0 \<le> v" "v < 10000"
  obtains a b c d where "padN 4 (nat v) = [a, b, c, d]" "parseUint [a, b, c, d] 0 9999 = Some v"
proof -
  have "length (padN 4 (nat v)) = Suc (Suc (Suc (Suc 0)))" by simp
  then obtain a b c d where ab: "padN 4 (nat v) = [a, b, c, d]"
    by (auto simp only: length_Suc_conv length_0_conv)
  moreover have "parseUint (padN 4 (nat v)) 0 9999 = Some v" using assms by (intro parseUint_padN) auto
  ultimately show thesis using that by simp
qed

lemma dropZeros_append: "s = dropZeros s @ replicate (length s - length (dropZeros s)) CHR ''0''"
proof -
  let ?z = "\<lambda>c. c = CHR ''0''"
  have "takeWhile ?z (rev s) = replicate (length (takeWhile ?z (rev s))) CHR ''0''"
    by (rule replicate_eqI) (auto dest: set_takeWhileD)
  moreover have "rev s = takeWhile ?z (rev s) @ dropWhile ?z (rev s)" by simp
  ultimately have "s = dropZeros s @ replicate (length (takeWhile ?z (rev s))) CHR ''0''"
    by (metis dropZeros_def rev_append rev_replicate rev_rev_ident)
  then show ?thesis by (metis add_diff_cancel_left' length_append length_replicate)
qed

lemma digitsVal_zeros: "digitsVal a (replicate k CHR ''0'') = Some (a * 10 ^ k)"
  by (induction k arbitrary: a) (simp_all add: is_digit_def algebra_simps)

lemma digitsVal_digits: "\<forall>c\<in>set s. is_digit c \<Longrightarrow> \<exists>n. digitsVal a s = Some n"
  by (induction s arbitrary: a) auto

lemma dropZeros_set: "set (dropZeros s) \<subseteq> set s"
  by (auto simp: dropZeros_def dest: set_dropWhileD)

lemma parseNanoseconds_dropZeros:
  assumes "ns < 10 ^ 9"
  shows "parseNanoseconds (dropZeros (padN 9 ns)) = int ns"
proof -
  let ?s = "padN 9 ns" and ?d = "dropZeros (padN 9 ns)"
  have s: "?s = ?d @ replicate (9 - length ?d) CHR ''0''" and len: "length ?d \<le> 9"
    using dropZeros_append [of ?s] length_append [of ?d] by (simp, metis length_padN le_add1 length_append)
  obtain n where n: "digitsVal 0 ?d = Some n"
    using digitsVal_digits [of ?d 0] dropZeros_set [of ?s] padN_digits by blast
  have "Some ns = digitsVal 0 (?d @ replicate (9 - length ?d) CHR ''0'')"
    using assms s digitsVal_padN [of 9 ns] by simp
  also have "\<dots> = Some (n * 10 ^ (9 - length ?d))"
    by (simp add: digitsVal_append n digitsVal_zeros)
  finally have "int ns = int n * 10 ^ (9 - length ?d)"
    by (metis option.inject of_nat_mult of_nat_numeral of_nat_power)
  then show ?thesis
    using len by (simp add: parseNanoseconds_def n Let_def)
qed

lemma parseZone_formatZone:
  assumes "\<bar>z\<bar> < 1440"
  shows "parseZone (formatZone z) = Some z"
proof (cases "z = 0")
  case False
  have h: "0 \<le> \<bar>z\<bar> div 60" "\<bar>z\<bar> div 60 \<le> 23" "\<bar>z\<bar> div 60 < 100"
    and m: "0 \<le> \<bar>z\<bar> mod 60" "\<bar>z\<bar> mod 60 \<le> 59" "\<bar>z\<bar> mod 60 < 100"
    using assms pos_mod_bound [of 60 "\<bar>z\<bar>"] by simp_all
  obtain a b where "padN 2 (nat (\<bar>z\<bar> div 60)) = [a, b]" "parseUint [a, b] 0 23 = Some (\<bar>z\<bar> div 60)"
    by (rule padN_2E [OF h(1) h(1) h(2,3)])
  moreover obtain c d where "padN 2 (nat (\<bar>z\<bar> mod 60)) = [c, d]" "parseUint [c, d] 0 59 = Some (\<bar>z\<bar> mod 60)"
    by (rule padN_2E [OF m(1) m(1) m(2,3)])
  moreover have "\<bar>z\<bar> div 60 * 60 + \<bar>z\<bar> mod 60 = \<bar>z\<bar>" by simp
  ultimately show ?thesis
    using False by (auto simp: parseZone_def formatZone_def Let_def)
qed (simp add: parseZone_def formatZone_def)

lemma formatZone_hd: "\<exists>c cs. formatZone z = c # cs \<and> \<not> is_digit c \<and> c \<noteq> CHR ''.''"
  by (auto simp: formatZone_def is_digit_def)

lemma parseTail_format:
  assumes "ns < 10 ^ 9" "\<bar>z\<bar> < 1440"
  shows "parseTail ((if ns = 0 then [] else ''.'' @ dropZeros (padN 9 ns)) @ formatZone z) = Some (int ns, z)"
proof -
  obtain c cs where zone: "formatZone z = c # cs" "\<not> is_digit c" "c \<noteq> CHR ''.''"
    using formatZone_hd by blast
  have pz: "parseZone (c # cs) = Some z" using parseZone_formatZone [OF assms(2)] zone by simp
  show ?thesis
  proof (cases "ns = 0")
    case True
    with zone pz show ?thesis by (simp add: parseTail_def)
  next
    case False
    let ?d = "dropZeros (padN 9 ns)"
    have digs: "\<forall>x\<in>set ?d. is_digit x" using dropZeros_set padN_digits by blast
    then have tw: "takeWhile is_digit (?d @ c # cs) = ?d"
      using zone(2) by (simp add: takeWhile_append2)
    have val: "parseNanoseconds ?d = int ns" by (rule parseNanoseconds_dropZeros [OF assms(1)])
    then have "?d \<noteq> []" using False by (auto simp: parseNanoseconds_def)
    with False show ?thesis by (simp add: parseTail_def zone(1) tw val pz Let_def)
  qed
qed

text \<open>A marshalled time parses back to the same instant, in any zone.\<close>

lemma parse_format_RFC3339:
  assumes "yearOk z t" "\<bar>z\<bar> < 1440"
  shows "parseRFC3339 (formatRFC3339 z t) = Some t"
proof -
  obtain y m dd where civ: "civil (localDay z t) = (y, m, dd)" by (metis prod_cases3)
  have day: "0 \<le> localDay z t" "localDay z t < daysBeforeYear 10000"
    using assms(1) by (simp_all add: yearOk_def)
  note c = civil_inverts [OF day(1) civ]
  have y: "y < 10000" using year_below [OF c(7) day(2)] .
  define s where "s = localSec z t"
  have s: "0 \<le> s" "s < 86400" by (simp_all add: s_def localSec_def)
  define ns where "ns = nat (t mod 1000000000)"
  have ns: "ns < 10 ^ 9" "int ns = t mod 1000000000" by (simp_all add: ns_def nat_less_iff)
  have b: "0 \<le> m" "m < 100" "0 \<le> dd" "dd < 100"
    using c daysIn_pos(2) [of m y] by linarith+
  obtain m1 m2 where mm: "padN 2 (nat m) = [m1, m2]" "parseUint [m1, m2] 1 12 = Some m"
    by (rule padN_2E [OF b(1) c(3,4) b(2)])
  obtain d1 d2 where dd: "padN 2 (nat dd) = [d1, d2]" "parseUint [d1, d2] 1 (daysIn m y) = Some dd"
    by (rule padN_2E [OF b(3) c(5,6) b(4)])
  have h: "0 \<le> s div 3600" "s div 3600 \<le> 23" "s div 3600 < 100"
    and i: "0 \<le> s div 60 mod 60" "s div 60 mod 60 \<le> 59" "s div 60 mod 60 < 100"
    and j: "0 \<le> s mod 60" "s mod 60 \<le> 59" "s mod 60 < 100"
    using s pos_mod_bound [of 60 s] pos_mod_bound [of 60 "s div 60"] by simp_all
  obtain h1 h2 where hh: "padN 2 (nat (s div 3600)) = [h1, h2]" "parseUint [h1, h2] 0 23 = Some (s div 3600)"
    by (rule padN_2E [OF h(1) h])
  obtain i1 i2 where ii:
    "padN 2 (nat (s div 60 mod 60)) = [i1, i2]" "parseUint [i1, i2] 0 59 = Some (s div 60 mod 60)"
    by (rule padN_2E [OF i(1) i])
  obtain s1 s2 where ss: "padN 2 (nat (s mod 60)) = [s1, s2]" "parseUint [s1, s2] 0 59 = Some (s mod 60)"
    by (rule padN_2E [OF j(1) j])
  obtain y1 y2 y3 y4 where year: "padN 4 (nat y) = [y1, y2, y3, y4]"
    "parseUint [y1, y2, y3, y4] 0 9999 = Some y"
    by (rule padN_4E [OF c(2) y])
  have hms: "s div 3600 * 3600 + s div 60 mod 60 * 60 + s mod 60 = s"
  proof -
    have "s div 3600 = s div 60 div 60" by (simp add: zdiv_zmult2_eq [symmetric])
    then show ?thesis by presburger
  qed
  have "(localDay z t - epochDay) * 86400 + s = t div 1000000000 + 60 * z"
    by (simp add: localDay_def s_def localSec_def)
  with hms have sec: "(localDay z t - epochDay) * 86400 + s div 3600 * 3600 + s div 60 mod 60 * 60 + s mod 60
      - 60 * z = t div 1000000000"
    by simp
  have total: "((localDay z t - epochDay) * 86400 + s div 3600 * 3600 + s div 60 mod 60 * 60 + s mod 60
      - 60 * z) * 1000000000 + t mod 1000000000 = t"
    unfolding sec by simp
  show ?thesis
    using total
    by (simp add: formatRFC3339_def parseRFC3339_def civ s_def [symmetric] ns_def [symmetric] Let_def
      mm dd hh ii ss year parseTail_format [OF ns(1) assms(2), simplified] c(1) ns(2))
qed

end
