(* ===== verification/Go_Json.thy ===== *)
theory Go_Json
  imports World
begin

text \<open>
  \<open>encoding/json\<close> decoding into structs, on the document level: member by member, in order,
  a later member over an earlier one. A struct is described by the function that
  sets one of its fields.
\<close>

text \<open>
  Keys are matched without regard to case: ASCII letters, and the two other runes that fold to
  an ASCII letter (long s and the Kelvin sign).
\<close>

definition lowerByte :: "char \<Rightarrow> char" where
  "lowerByte c = (if 65 \<le> byte c \<and> byte c \<le> 90 then char_of (byte c + 32) else c)"

fun foldKey :: "string \<Rightarrow> string" where
  "foldKey [] = []"
| "foldKey (c # cs) =
     (if c = CHR 0xC5 \<and> take 1 cs = [CHR 0xBF] then CHR ''s'' # foldKey (drop 1 cs)
      else if c = CHR 0xE2 \<and> take 2 cs = [CHR 0x84, CHR 0xAA] then CHR ''k'' # foldKey (drop 2 cs)
      else lowerByte c # foldKey cs)"

declare foldKey.simps [simp del]

text \<open>The values a string, an \<open>int64\<close> and a \<open>uint64\<close> field accept.\<close>

fun strValue :: "json \<Rightarrow> string option" where
  "strValue (JStr s) = Some s"
| "strValue _ = None"

fun intValue :: "json \<Rightarrow> int option" where
  "intValue (JInt n) = (if is_i64 n then Some n else None)"
| "intValue _ = None"

fun uintValue :: "json \<Rightarrow> 64 word option" where
  "uintValue (JInt n) = (if 0 \<le> n \<and> n < 2 ^ 64 then Some (word_of_int n) else None)"
| "uintValue _ = None"

fun decodeMembers :: "(string \<Rightarrow> json \<Rightarrow> 'a \<Rightarrow> 'a option) \<Rightarrow> (string \<times> json) list \<Rightarrow> 'a \<Rightarrow> 'a option" where
  "decodeMembers setf [] x = Some x"
| "decodeMembers setf ((k, j) # kvs) x = Option.bind (setf (foldKey k) j x) (decodeMembers setf kvs)"

text \<open>A null leaves the struct as it is.\<close>

fun decodeObj :: "(string \<Rightarrow> json \<Rightarrow> 'a \<Rightarrow> 'a option) \<Rightarrow> json \<Rightarrow> 'a \<Rightarrow> 'a option" where
  "decodeObj setf JNull x = Some x"
| "decodeObj setf (JObj kvs) x = decodeMembers setf kvs x"
| "decodeObj setf _ x = None"

text \<open>
  A pointer to a struct: a null makes it nil, anything else is decoded into what it points to, a
  zero value when it was nil.
\<close>

definition decodePtr :: "(string \<Rightarrow> json \<Rightarrow> 'a \<Rightarrow> 'a option) \<Rightarrow> 'a \<Rightarrow> json \<Rightarrow> 'a option \<Rightarrow> 'a option option" where
  "decodePtr setf zero j p =
     (if j = JNull then Some None
      else map_option Some (decodeObj setf j (case p of None \<Rightarrow> zero | Some x \<Rightarrow> x)))"

lemma decodeMembers_append:
  "decodeMembers setf (xs @ ys) x = Option.bind (decodeMembers setf xs x) (decodeMembers setf ys)"
  by (induction xs arbitrary: x) (auto split: bind_splits)

lemma decodeMembers_skip:
  "\<forall>(k, j)\<in>set kvs. \<forall>x. f (foldKey k) j x = Some x \<Longrightarrow> decodeMembers f kvs x = Some x"
  by (induction kvs) auto

end
