(* ===== verification/Vm.thy ===== *)
theory Vm
  imports Network Go_Time Go_Json
begin

text \<open>
  The VM record of \<open>internal/vmmanager/manager.go\<close>, its JSON form (the \<open>meta.json\<close> file), and
  the \<open>Backend\<close> interface with the contract its comments state.
\<close>

section \<open>VMs\<close>

record VM =
  ID :: string
  TeamID :: string
  Slot :: int
  Vcpu :: int
  RamMb :: int
  DockerEndpoint :: string
  Pid :: int
  CreatedAt :: int
  TTL :: int

definition ExpiresAt :: "VM \<Rightarrow> int" where
  "ExpiresAt vm = CreatedAt vm + TTL vm"

section \<open>JSON\<close>

text \<open>\<open>json.Marshal(vm)\<close>: the fields in order, the time in the host's zone.\<close>

definition encodeVM :: "int \<Rightarrow> VM \<Rightarrow> json" where
  "encodeVM z vm = JObj
     [(''id'', JStr (ID vm)), (''team_id'', JStr (TeamID vm)), (''slot'', JInt (Slot vm)),
      (''vcpu'', JInt (Vcpu vm)), (''ram_mb'', JInt (RamMb vm)),
      (''docker_endpoint'', JStr (DockerEndpoint vm)), (''pid'', JInt (Pid vm)),
      (''created_at'', JStr (formatRFC3339 z (CreatedAt vm))), (''ttl'', JInt (TTL vm))]"

definition marshalVM :: "env \<Rightarrow> VM \<Rightarrow> gerr + content" where
  "marshalVM env vm =
     (if yearOk (e_zone env) (CreatedAt vm) then Inr (Doc (encodeVM (e_zone env) vm))
      else Inl (Msg ''Time.MarshalJSON: year outside of range [0,9999]''))"

text \<open>
  The zero value, from which \<open>json.Unmarshal\<close> starts; the zero \<open>time.Time\<close> is the start
  of the year 1.
\<close>

definition zeroVM :: VM where
  "zeroVM = \<lparr>ID = [], TeamID = [], Slot = 0, Vcpu = 0, RamMb = 0, DockerEndpoint = [], Pid = 0,
     CreatedAt = -62135596800000000000, TTL = 0\<rparr>"

text \<open>A null leaves the field as it is; a value of another type is an error.\<close>

definition setField :: "string \<Rightarrow> json \<Rightarrow> VM \<Rightarrow> VM option" where
  "setField k j vm =
     (if j = JNull then Some vm
      else if k = ''id'' then map_option (\<lambda>s. vm\<lparr>ID := s\<rparr>) (strValue j)
      else if k = ''team_id'' then map_option (\<lambda>s. vm\<lparr>TeamID := s\<rparr>) (strValue j)
      else if k = ''slot'' then map_option (\<lambda>n. vm\<lparr>Slot := n\<rparr>) (intValue j)
      else if k = ''vcpu'' then map_option (\<lambda>n. vm\<lparr>Vcpu := n\<rparr>) (intValue j)
      else if k = ''ram_mb'' then map_option (\<lambda>n. vm\<lparr>RamMb := n\<rparr>) (intValue j)
      else if k = ''docker_endpoint'' then map_option (\<lambda>s. vm\<lparr>DockerEndpoint := s\<rparr>) (strValue j)
      else if k = ''pid'' then map_option (\<lambda>n. vm\<lparr>Pid := n\<rparr>) (intValue j)
      else if k = ''created_at'' then
        map_option (\<lambda>t. vm\<lparr>CreatedAt := t\<rparr>) (Option.bind (strValue j) parseRFC3339)
      else if k = ''ttl'' then map_option (\<lambda>n. vm\<lparr>TTL := n\<rparr>) (intValue j)
      else Some vm)"

definition decodeVM :: "json \<Rightarrow> VM option" where
  "decodeVM j = decodeObj setField j zeroVM"

fun unmarshalVM :: "content \<Rightarrow> VM option" where
  "unmarshalVM (Doc j) = decodeVM j"
| "unmarshalVM (Text _) = None"

definition vm_ints_ok :: "VM \<Rightarrow> bool" where
  "vm_ints_ok vm \<longleftrightarrow>
     is_i64 (Slot vm) \<and> is_i64 (Vcpu vm) \<and> is_i64 (RamMb vm) \<and> is_i64 (Pid vm) \<and> is_i64 (TTL vm)"

lemma foldKey_names [simp]:
  "foldKey ''id'' = ''id''" "foldKey ''team_id'' = ''team_id''" "foldKey ''slot'' = ''slot''"
  "foldKey ''vcpu'' = ''vcpu''" "foldKey ''ram_mb'' = ''ram_mb''"
  "foldKey ''docker_endpoint'' = ''docker_endpoint''" "foldKey ''pid'' = ''pid''"
  "foldKey ''created_at'' = ''created_at''" "foldKey ''ttl'' = ''ttl''"
  by (simp_all add: foldKey.simps lowerByte_def)

lemma setField_names [simp]:
  "setField ''id'' (JStr s) vm = Some (vm\<lparr>ID := s\<rparr>)"
  "setField ''team_id'' (JStr s) vm = Some (vm\<lparr>TeamID := s\<rparr>)"
  "is_i64 n \<Longrightarrow> setField ''slot'' (JInt n) vm = Some (vm\<lparr>Slot := n\<rparr>)"
  "is_i64 n \<Longrightarrow> setField ''vcpu'' (JInt n) vm = Some (vm\<lparr>Vcpu := n\<rparr>)"
  "is_i64 n \<Longrightarrow> setField ''ram_mb'' (JInt n) vm = Some (vm\<lparr>RamMb := n\<rparr>)"
  "setField ''docker_endpoint'' (JStr s) vm = Some (vm\<lparr>DockerEndpoint := s\<rparr>)"
  "is_i64 n \<Longrightarrow> setField ''pid'' (JInt n) vm = Some (vm\<lparr>Pid := n\<rparr>)"
  "parseRFC3339 s = Some t \<Longrightarrow> setField ''created_at'' (JStr s) vm = Some (vm\<lparr>CreatedAt := t\<rparr>)"
  "is_i64 n \<Longrightarrow> setField ''ttl'' (JInt n) vm = Some (vm\<lparr>TTL := n\<rparr>)"
  by (simp_all add: setField_def)

lemma marshal_inverse:
  assumes "vm_ints_ok vm" "yearOk (e_zone env) (CreatedAt vm)" "\<bar>e_zone env\<bar> < 1440" "marshalVM env vm = Inr c"
  shows "unmarshalVM c = Some vm"
proof -
  have "decodeVM (encodeVM (e_zone env) vm) = Some vm"
    using assms(1) parse_format_RFC3339 [OF assms(2,3)]
    by (simp add: decodeVM_def encodeVM_def vm_ints_ok_def)
  with assms(2,4) show ?thesis by (auto simp: marshalVM_def)
qed

text \<open>
  C30. \<open>json.Unmarshal\<close> of \<open>json.Marshal(vm)\<close> gives back \<open>vm\<close>, every field of it, in every
  time zone.
\<close>

theorem unmarshal_marshal_VM:
  assumes "vm_ints_ok vm" "yearOk (e_zone env) (CreatedAt vm)" "\<bar>e_zone env\<bar> < 1440"
  shows "\<exists>c. marshalVM env vm = Inr c \<and> unmarshalVM c = Some vm"
  using marshal_inverse [OF assms] assms(2) by (simp add: marshalVM_def)

definition example_vm :: VM where
  "example_vm = \<lparr>ID = ''vm_1'', TeamID = ''team'', Slot = 0, Vcpu = 2, RamMb = 4096,
     DockerEndpoint = ''10.10.0.2:10000'', Pid = 4711, CreatedAt = 1700000000123456789,
     TTL = 3600000000000\<rparr>"

theorem unmarshal_marshal_VM_witness:
  "\<exists>c. marshalVM (calm\<lparr>e_zone := 330\<rparr>) example_vm = Inr c \<and> unmarshalVM c = Some example_vm"
  by (rule unmarshal_marshal_VM)
    (simp_all add: vm_ints_ok_def is_i64_def example_vm_def yearOk_def localDay_def epochDay_def
      daysBeforeYear_def)

section \<open>The Backend interface\<close>

text \<open>
  \<open>Boot\<close> may fail to return (\<^term>\<open>None\<close>); otherwise it gives its error, the VM it was handed
  with whatever it filled in, its own state and the trace. \<open>Stop\<close> gives its error, its
  state and the trace. The state \<open>'b\<close> is the backend's own.
\<close>

record 'b Backend =
  Boot :: "VM \<Rightarrow> NetConfig \<Rightarrow> string \<Rightarrow> 'b \<Rightarrow> trace \<Rightarrow> (error \<times> VM \<times> 'b \<times> trace) option"
  Stop :: "VM \<Rightarrow> 'b \<Rightarrow> trace \<Rightarrow> error \<times> 'b \<times> trace"

text \<open>
  The contract: \<open>Boot\<close> writes nothing of the VM but its endpoint and its process id, and on
  success the endpoint is filled in; calls to the outside are only ever added to the trace.
\<close>

locale backend_contract =
  fixes B :: "'b Backend"
  assumes boot_fields: "Boot B vm nc rootfs b tr = Some (err, vm', b', tr') \<Longrightarrow>
      vm' = vm\<lparr>DockerEndpoint := DockerEndpoint vm', Pid := Pid vm'\<rparr>"
    and boot_fills: "Boot B vm nc rootfs b tr = Some (None, vm', b', tr') \<Longrightarrow> DockerEndpoint vm' \<noteq> []"
    and boot_trace: "Boot B vm nc rootfs b tr = Some (err, vm', b', tr') \<Longrightarrow> \<exists>ev. tr' = tr @ ev"
    and stop_trace: "Stop B vm b tr = (err, b', tr') \<Longrightarrow> \<exists>ev. tr' = tr @ ev"
begin

lemma boot_keeps:
  assumes "Boot B vm nc rootfs b tr = Some (err, vm', b', tr')"
  shows "ID vm' = ID vm" "Slot vm' = Slot vm" "Vcpu vm' = Vcpu vm" "RamMb vm' = RamMb vm"
    "TeamID vm' = TeamID vm" "CreatedAt vm' = CreatedAt vm" "TTL vm' = TTL vm"
proof -
  obtain d p where vm': "vm' = vm\<lparr>DockerEndpoint := d, Pid := p\<rparr>"
    using boot_fields [OF assms] by blast
  show "ID vm' = ID vm" "Slot vm' = Slot vm" "Vcpu vm' = Vcpu vm" "RamMb vm' = RamMb vm"
    "TeamID vm' = TeamID vm" "CreatedAt vm' = CreatedAt vm" "TTL vm' = TTL vm"
    by (simp_all add: vm')
qed

end

end
