(* ===== verification/Go_Path.thy ===== *)
theory Go_Path
  imports Go_Strings "HOL-Library.Sublist"
begin

text \<open>
  Laws of \<open>filepath.Clean\<close> and \<open>filepath.Join\<close>: cleaning twice is cleaning once, and joining
  names below a directory gives that directory's own prefix followed by the names, so that joining
  step by step or at once makes no difference.
\<close>

section \<open>Names\<close>

text \<open>A name that a directory can hold.\<close>

definition pathElem :: "string \<Rightarrow> bool" where
  "pathElem s \<longleftrightarrow> s \<noteq> [] \<and> s \<noteq> ''.'' \<and> s \<noteq> ''..'' \<and> CHR ''/'' \<notin> set s"

text \<open>The elements of a cleaned path: names, and \<open>..\<close> only in front of a relative one.\<close>

definition cleaned :: "bool \<Rightarrow> string list \<Rightarrow> bool" where
  "cleaned rooted ss \<longleftrightarrow>
     (\<exists>n us. ss = replicate n ''..'' @ us \<and> list_all pathElem us \<and> (rooted \<longrightarrow> n = 0))"

lemma cleaned_Nil [simp]: "cleaned r []"
  by (simp add: cleaned_def)

lemma cleaned_snoc: "cleaned r ss \<Longrightarrow> pathElem s \<Longrightarrow> cleaned r (ss @ [s])"
  by (fastforce simp: cleaned_def)

lemma cleaned_snoc_up:
  assumes "cleaned False (ss @ [''..''])"
  shows "cleaned False (ss @ [''..'', ''..''])"
proof -
  obtain n us where ss: "ss @ [''..''] = replicate n ''..'' @ us" and us: "list_all pathElem us"
    using assms by (auto simp: cleaned_def)
  have "us = []"
  proof (rule ccontr)
    assume "us \<noteq> []"
    with ss have "last us = ''..''" by (metis last_appendR last_snoc)
    with us \<open>us \<noteq> []\<close> show False by (metis last_in_set list_all_iff pathElem_def)
  qed
  with ss have "ss @ [''..'', ''..''] = replicate n ''..'' @ [''..'']"
    by (metis append.assoc append_Cons append_Nil append_Nil2)
  also have "\<dots> = replicate (Suc n) ''..''" by (simp add: replicate_append_same)
  finally have "ss @ [''..'', ''..''] = replicate (Suc n) ''..''" .
  then show ?thesis unfolding cleaned_def
    by (intro exI [of _ "Suc n"] exI [of _ "[]"]) simp
qed

lemma cleaned_butlast:
  assumes "cleaned r (ss @ [s])"
  shows "cleaned r ss"
proof -
  obtain n us where ss: "ss @ [s] = replicate n ''..'' @ us" "list_all pathElem us" "r \<longrightarrow> n = 0"
    using assms by (auto simp: cleaned_def)
  show ?thesis
  proof (cases us rule: rev_cases)
    case Nil
    with ss(1) have "ss @ [s] = replicate n ''..''" by simp
    then obtain k where "n = Suc k" by (cases n) auto
    with \<open>ss @ [s] = replicate n ''..''\<close> have "ss @ [s] = replicate k ''..'' @ [''..'']"
      by (simp add: replicate_append_same)
    then have "ss = replicate k ''..''" by simp
    with ss(3) \<open>n = Suc k\<close> show ?thesis unfolding cleaned_def
      by (intro exI [of _ k] exI [of _ "[]"]) auto
  next
    case (snoc vs v)
    with ss show ?thesis unfolding cleaned_def by (intro exI [of _ n] exI [of _ vs]) auto
  qed
qed

lemma cleaned_rooted: "cleaned True ss \<Longrightarrow> list_all pathElem ss"
  by (auto simp: cleaned_def)

lemma cleaned_elems:
  assumes "cleaned r ss"
  shows "list_all (\<lambda>x. x = ''..'' \<or> pathElem x) ss"
proof -
  obtain n us where "ss = replicate n ''..'' @ us" "list_all pathElem us"
    using assms by (auto simp: cleaned_def)
  then show ?thesis by (auto simp: list_all_iff in_set_replicate)
qed

lemma cleaned_up: "cleaned False [''..'']"
  unfolding cleaned_def by (intro exI [of _ "Suc 0"] exI [of _ "[]"]) simp

section \<open>Cleaning\<close>

lemma cleaned_cleanSegs:
  "cleaned r (rev kept) \<Longrightarrow> list_all (\<lambda>x. CHR ''/'' \<notin> set x) xs \<Longrightarrow> cleaned r (cleanSegs r kept xs)"
proof (induction r kept xs rule: cleanSegs.induct)
  case (2 rooted kept x xs)
  consider "x = [] \<or> x = ''.''" | "x = ''..''" | "pathElem x" using 2(7) by (auto simp: pathElem_def)
  then show ?case
  proof cases
    case 1
    then show ?thesis using 2 by auto
  next
    case 2
    note up = this
    show ?thesis
    proof (cases kept)
      case Nil
      then show ?thesis using up "2.IH"(2) "2.prems" cleaned_up by (cases rooted) simp_all
    next
      case (Cons k ks)
      show ?thesis
      proof (cases "k = ''..''")
        case True
        have "\<not> rooted" 
          using "2.prems"(1) Cons True cleaned_rooted [of "rev kept"] by (cases rooted) (simp_all add: pathElem_def)
        then have "cleaned rooted (rev (''..'' # kept))"
          using cleaned_snoc_up "2.prems"(1) Cons True by simp
        with up Cons True "2.IH"(3) "2.prems" show ?thesis by simp
      next
        case False
        with up Cons "2.IH"(4) "2.prems" cleaned_butlast show ?thesis by simp
      qed
    qed
  next
    case 3
    then have "cleaned rooted (rev (x # kept))" using "2.prems"(1) cleaned_snoc by simp
    with 3 "2.IH"(5) "2.prems" show ?thesis by (simp add: pathElem_def)
  qed
qed simp

lemma cleanSegs_names: "list_all pathElem us \<Longrightarrow> cleanSegs r kept (us @ xs) = cleanSegs r (rev us @ kept) xs"
  by (induction us arbitrary: kept) (auto simp: pathElem_def)

lemma cleanSegs_ups: "cleanSegs False (replicate k ''..'') (replicate n ''..'' @ xs) = cleanSegs False (replicate (k + n) ''..'') xs"
proof (induction n arbitrary: k)
  case (Suc n)
  from Suc [of "Suc k"] show ?case by (cases k) auto
qed simp

lemma cleanSegs_cleaned: "cleaned r ss \<Longrightarrow> cleanSegs r [] (ss @ xs) = cleanSegs r (rev ss) xs"
  using cleanSegs_ups [of 0] by (auto simp: cleaned_def cleanSegs_names)

lemma cleanSegs_snoc: "pathElem b \<Longrightarrow> cleanSegs r kept (xs @ [b]) = cleanSegs r kept xs @ [b]"
  by (induction r kept xs rule: cleanSegs.induct) (auto simp: pathElem_def split: list.splits)

lemma splitOn_no_sep: "list_all (\<lambda>x. d \<notin> set x) (splitOn d s)"
  by (induction s) (auto split: list.splits)

lemma splitOn_joinWith:
  "ss \<noteq> [] \<Longrightarrow> list_all (\<lambda>x. d \<notin> set x) ss \<Longrightarrow> splitOn d (joinWith [d] ss) = ss"
proof (induction "[d]" ss rule: joinWith.induct)
  case (3 x y ys)
  then show ?case using splitOn_append [of d x "joinWith [d] (y # ys)"] by (simp add: splitOn_notin)
qed (simp_all add: splitOn_notin)

lemma joinWith_snoc: "joinWith sep (xs @ [b]) = (if xs = [] then b else joinWith sep xs @ sep @ b)"
  by (induction sep xs rule: joinWith.induct) auto

text \<open>The elements of a path, and the path made of elements.\<close>

definition segs :: "string \<Rightarrow> string list" where
  "segs p = cleanSegs (p \<noteq> [] \<and> hd p = CHR ''/'') [] (splitOn (CHR ''/'') p)"

definition render :: "bool \<Rightarrow> string list \<Rightarrow> string" where
  "render rooted ss = (if rooted then CHR ''/'' # joinWith ''/'' ss else if ss = [] then ''.'' else joinWith ''/'' ss)"

lemma cleaned_segs: "cleaned (p \<noteq> [] \<and> hd p = CHR ''/'') (segs p)"
  unfolding segs_def by (rule cleaned_cleanSegs) (simp_all add: splitOn_no_sep)

lemma cleaned_noslash: "cleaned r ss \<Longrightarrow> list_all (\<lambda>x. CHR ''/'' \<notin> set x \<and> x \<noteq> []) ss"
  by (drule cleaned_elems, erule list.pred_mono_strong) (auto simp: pathElem_def)

lemma joinWith_eq_Nil: "list_all (\<lambda>x. x \<noteq> []) ss \<Longrightarrow> joinWith sep ss = [] \<longleftrightarrow> ss = []"
  by (induction sep ss rule: joinWith.induct) auto

lemma Clean_render: "Clean p = render (p \<noteq> [] \<and> hd p = CHR ''/'') (segs p)"
proof -
  have "list_all (\<lambda>x. x \<noteq> []) (segs p)" using cleaned_noslash [OF cleaned_segs] by (auto simp: list_all_iff)
  from joinWith_eq_Nil [OF this, of "''/''"] show ?thesis
    by (cases "p = []"; cases "hd p = CHR ''/''") (simp_all add: Clean_def render_def segs_def Let_def)
qed

text \<open>One more element below a path, cleaned or not.\<close>

lemma rooted_below: "p \<noteq> [] \<Longrightarrow> hd (p @ q) = hd p"
  by simp

lemma segs_below:
  assumes "p \<noteq> []" "pathElem b"
  shows "segs (p @ ''/'' @ b) = segs p @ [b]"
  using assms splitOn_append [of "CHR ''/''" p b] cleanSegs_snoc [OF assms(2)]
  by (simp add: segs_def pathElem_def splitOn_notin)

lemma hd_joinWith: "ss \<noteq> [] \<Longrightarrow> hd ss \<noteq> [] \<Longrightarrow> hd (joinWith sep ss) = hd (hd ss)"
  by (cases "(sep, ss)" rule: joinWith.cases) auto

lemma segs_render:
  assumes "cleaned r ss"
  shows "segs (render r ss) = ss" "render r ss \<noteq> []" "hd (render r ss) = CHR ''/'' \<longleftrightarrow> r"
proof -
  have el: "list_all (\<lambda>x. CHR ''/'' \<notin> set x) ss" "list_all (\<lambda>x. x \<noteq> []) ss"
    using cleaned_noslash [OF assms] by (auto simp: list_all_iff)
  have id: "cleanSegs r [] ss = ss" using cleanSegs_cleaned [OF assms, of "[]"] by simp
  have split: "splitOn (CHR ''/'') (joinWith ''/'' ss) = (if ss = [] then [[]] else ss)"
    using splitOn_joinWith [OF _ el(1)] by auto
  have hd: "hd (joinWith ''/'' ss) \<noteq> CHR ''/''" if "ss \<noteq> []"
  proof -
    have "hd ss \<noteq> []" "CHR ''/'' \<notin> set (hd ss)" using that el by (auto simp: list_all_iff)
    then show ?thesis using hd_joinWith [OF that] by (metis list.set_sel(1))
  qed
  show ne: "render r ss \<noteq> []" using joinWith_eq_Nil [OF el(2)] by (simp add: render_def)
  show rt: "hd (render r ss) = CHR ''/'' \<longleftrightarrow> r" using hd by (simp add: render_def)
  have "segs (render r ss) = cleanSegs r [] (splitOn (CHR ''/'') (render r ss))"
    using ne rt by (simp add: segs_def)
  then show "segs (render r ss) = ss"
    using split id by (cases r; cases "ss = []") (auto simp: render_def)
qed

lemma render_below: "render r (ss @ [b]) = (if ss = [] \<and> \<not> r then b else if ss = [] then ''/'' @ b else render r ss @ ''/'' @ b)"
  by (simp add: render_def joinWith_snoc)

section \<open>Joining\<close>

text \<open>What every path below a directory starts with.\<close>

definition below :: "string \<Rightarrow> string" where
  "below d = (if d = [] then [] else let r = (hd d = CHR ''/'') in
     if segs d = [] \<and> \<not> r then [] else if segs d = [] then ''/'' else render r (segs d) @ ''/'')"

lemma Clean_below: "d \<noteq> [] \<Longrightarrow> pathElem a \<Longrightarrow> Clean (d @ ''/'' @ a) = below d @ a"
  by (simp add: Clean_render segs_below [simplified] render_below below_def Let_def)

lemma Join2: "pathElem a \<Longrightarrow> Join [d, a] = below d @ a"
proof (cases "d = []")
  case True
  assume a: "pathElem a"
  then have "hd a \<noteq> CHR ''/''" by (metis hd_in_set pathElem_def)
  with True a show ?thesis
    using cleanSegs_snoc [of a False "[]" "[]"]
    by (simp add: Join_def below_def Clean_def Let_def pathElem_def splitOn_notin)
qed (simp add: Join_def Clean_below [simplified])

lemma below_name: "pathElem a \<Longrightarrow> below (below d @ a) = below d @ a @ ''/''"
proof -
  assume a: "pathElem a"
  define r ss where "r = (d \<noteq> [] \<and> hd d = CHR ''/'')" and "ss = (if d = [] then [] else segs d)"
  have ss: "cleaned r ss" using cleaned_segs [of d] by (auto simp: r_def ss_def)
  have eq: "below d @ a = render r (ss @ [a])"
    by (simp add: below_def render_below r_def ss_def Let_def)
  note seg = segs_render [OF cleaned_snoc [OF ss a]]
  show ?thesis using seg by (simp add: below_def [of "below d @ a"] eq [symmetric] Let_def)
qed

lemma Join_step: "pathElem a \<Longrightarrow> pathElem b \<Longrightarrow> Join [Join [d, a], b] = below d @ a @ ''/'' @ b"
  by (simp add: Join2 below_name)

lemma Join3: "pathElem a \<Longrightarrow> pathElem b \<Longrightarrow> Join [d, a, b] = below d @ a @ ''/'' @ b"
proof (cases "d = []")
  case True
  assume ab: "pathElem a" "pathElem b"
  then have "Join [d, a, b] = below a @ b"
    using True Clean_below [of a b] by (simp add: Join_def pathElem_def)
  moreover have "below a = a @ ''/''" using below_name [OF ab(1), of "[]"] by (simp add: below_def [of "[]"])
  ultimately show ?thesis using True by (simp add: below_def [of "[]"])
next
  case False
  assume ab: "pathElem a" "pathElem b"
  have "Join [d, a, b] = Clean ((d @ ''/'' @ a) @ ''/'' @ b)" using False by (simp add: Join_def)
  also have "\<dots> = below (d @ ''/'' @ a) @ b" using ab by (intro Clean_below) simp_all
  also have "below (d @ ''/'' @ a) = below (below d @ a)"
  proof -
    have "segs (d @ ''/'' @ a) = segs d @ [a]" using False ab by (intro segs_below)
    moreover have "below d @ a = render (hd d = CHR ''/'') (segs d @ [a])"
      using Clean_below [OF False ab(1)] False by (simp add: Clean_render segs_below [simplified] ab(1))
    moreover have "cleaned (hd d = CHR ''/'') (segs d @ [a])"
      using cleaned_segs [of d] False ab(1) by (simp add: cleaned_snoc)
    note seg = segs_render [OF this]
    ultimately show ?thesis using False seg by (simp add: below_def Let_def)
  qed
  finally show ?thesis by (simp add: below_name ab(1))
qed

text \<open>Joining a directory with two names at once or one after the other is the same.\<close>

lemma Join_Join: "pathElem a \<Longrightarrow> pathElem b \<Longrightarrow> Join [Join [d, a], b] = Join [d, a, b]"
  by (simp add: Join_step Join3)

end
