(* ===== verification/Disk.thy ===== *)
theory Disk
  imports World Go_Path
begin

text \<open>
  The agent's state directory as its own calls leave it. The files with metadata after a trace are a
  function of the writes and removals in it, in the way that rules and devices are
  (\<open>Network_Effects\<close>); \<open>disk_ok\<close> says that the outside behaves like a file system that
  keeps them.
\<close>

section \<open>Files after a trace\<close>

definition underDir :: "string \<Rightarrow> string \<Rightarrow> bool" where
  "underDir d p \<longleftrightarrow> p = d \<or> prefix (d @ ''/'') p"

fun fileEffect :: "call \<times> oserr option \<Rightarrow> (string \<rightharpoonup> content) \<Rightarrow> (string \<rightharpoonup> content)" where
  "fileEffect (WriteFile p d, None) F = F(p \<mapsto> d)"
| "fileEffect (RemoveAll d, None) F = (\<lambda>p. if underDir d p then None else F p)"
| "fileEffect _ F = F"

definition filesAfter :: "trace \<Rightarrow> (string \<rightharpoonup> content)" where
  "filesAfter tr = fold fileEffect tr Map.empty"

lemma filesAfter_Nil [simp]: "filesAfter [] = Map.empty"
  by (simp add: filesAfter_def)

lemma filesAfter_snoc [simp]: "filesAfter (tr @ [c]) = fileEffect c (filesAfter tr)"
  by (simp add: filesAfter_def)

lemma fileEffect_failed [simp]: "fileEffect (c, Some e) F = F"
  by (cases c) auto

lemma filesAfter_written: "filesAfter tr p = Some d \<Longrightarrow> (WriteFile p d, None) \<in> set tr"
proof (induction tr rule: rev_induct)
  case (snoc x xs)
  then show ?case by (cases "(x, filesAfter xs)" rule: fileEffect.cases) (auto split: if_splits)
qed simp

section \<open>Metadata files\<close>

definition metaPath :: "string \<Rightarrow> string \<Rightarrow> string" where
  "metaPath d name = Join [d, name, ''meta.json'']"

definition isMeta :: "string \<Rightarrow> bool" where
  "isMeta p \<longleftrightarrow> suffix ''/meta.json'' p"

text \<open>Calls that no metadata file can be changed by.\<close>

fun keepsMeta :: "call \<Rightarrow> bool" where
  "keepsMeta (WriteFile p _) = (\<not> isMeta p)"
| "keepsMeta (RemoveAll _) = False"
| "keepsMeta _ = True"

lemma keepsMeta_effect: "keepsMeta c \<Longrightarrow> isMeta p \<Longrightarrow> fileEffect (c, e) F p = F p"
  by (cases c; cases e) auto

text \<open>
  A removal that fails may have removed a part of the directory, and a write that fails may have emptied or cut the file; what the disk holds
  after one of them is not known. Of a trace without such failures \<open>filesAfter\<close> is what the disk holds.
\<close>

fun certain :: "call \<times> oserr option \<Rightarrow> bool" where
  "certain (RemoveAll _, Some _) = False"
| "certain (WriteFile p _, Some _) = (\<not> isMeta p)"
| "certain _ = True"

definition undamaged :: "trace \<Rightarrow> bool" where
  "undamaged tr \<longleftrightarrow> (\<forall>x\<in>set tr. certain x)"

lemma undamaged_simps [simp]:
  "undamaged []" "undamaged (x # tr) \<longleftrightarrow> certain x \<and> undamaged tr" "undamaged (tr @ tr') \<longleftrightarrow> undamaged tr \<and> undamaged tr'"
  by (auto simp: undamaged_def)

lemma certain_None [simp]: "certain (c, None)"
  by (cases c) simp_all

lemma keepsMeta_certain: "keepsMeta c \<Longrightarrow> certain (c, e)"
  by (cases c; cases e) simp_all

lemma keepsMeta_undamaged:
  assumes "extends keepsMeta tr tr'" "undamaged tr"
  shows "undamaged tr'"
  using assms keepsMeta_certain by (fastforce simp: extends_def undamaged_def)

lemma keepsMeta_files:
  assumes "extends keepsMeta tr tr'" "isMeta p"
  shows "filesAfter tr' p = filesAfter tr p"
proof -
  obtain ev where tr': "tr' = tr @ ev" and ev: "\<forall>c\<in>set ev. keepsMeta (fst c)"
    using assms(1) by (auto simp: extends_def)
  have "filesAfter (tr @ ev) p = filesAfter tr p"
    using ev
  proof (induction ev rule: rev_induct)
    case (snoc x xs)
    then show ?case using keepsMeta_effect [OF _ assms(2), of "fst x" "snd x"]
      by (simp add: append_assoc [symmetric] del: append_assoc)
  qed simp
  then show ?thesis by (simp add: tr')
qed

lemma pathElem_names [simp]:
  "pathElem ''meta.json''" "pathElem ''cpu.max''" "pathElem ''memory.max''" "pathElem ''cgroup.procs''"
  "pathElem ''cgroup.subtree_control''"
  by (simp_all add: pathElem_def)

lemma Join_not_meta:
  assumes "pathElem b" "last b \<noteq> CHR ''n''"
  shows "\<not> isMeta (Join [d, b])"
proof
  assume "isMeta (Join [d, b])"
  then obtain x where "below d @ b = x @ ''/meta.json''" by (auto simp: isMeta_def suffix_def Join2 [OF assms(1)])
  then have "last (below d @ b) = CHR ''n''" by simp
  with assms show False by (simp add: pathElem_def)
qed

lemma metaPath_eq: "pathElem k \<Longrightarrow> metaPath d k = below d @ k @ ''/meta.json''"
  by (simp add: metaPath_def Join3)

lemma metaPath_isMeta [simp]: "pathElem k \<Longrightarrow> isMeta (metaPath d k)"
  by (auto simp: metaPath_eq isMeta_def suffix_def)

lemma metaPath_inj: "pathElem k \<Longrightarrow> pathElem j \<Longrightarrow> metaPath d k = metaPath d j \<longleftrightarrow> k = j"
  by (simp add: metaPath_eq)

lemma prefix_name:
  assumes "CHR ''/'' \<notin> set k" "CHR ''/'' \<notin> set j"
  shows "prefix (k @ ''/'') (j @ CHR ''/'' # r) \<longleftrightarrow> k = j"
proof
  assume "prefix (k @ ''/'') (j @ CHR ''/'' # r)"
  then obtain z where eq: "j @ CHR ''/'' # r = k @ CHR ''/'' # z" by (auto simp: prefix_def)
  have "takeWhile (\<lambda>c. c \<noteq> CHR ''/'') (j @ CHR ''/'' # r) = j"
    "takeWhile (\<lambda>c. c \<noteq> CHR ''/'') (k @ CHR ''/'' # z) = k"
    using assms by (auto simp: takeWhile_tail takeWhile_eq_all_conv)
  with eq show "k = j" by simp
qed auto

text \<open>Removing the directory of one VM removes that VM's metadata and no other's.\<close>

lemma underDir_meta:
  assumes "pathElem k" "pathElem j"
  shows "underDir (Join [d, k]) (metaPath d j) \<longleftrightarrow> j = k"
proof -
  have "below d @ j @ ''/meta.json'' \<noteq> below d @ k"
    using assms by (auto simp: pathElem_def)
  moreover have "prefix (k @ ''/'') (j @ ''/meta.json'') \<longleftrightarrow> k = j"
    using prefix_name [of k j] assms by (simp add: pathElem_def)
  ultimately show ?thesis
    using assms by (auto simp: underDir_def metaPath_eq Join2)
qed

section \<open>A disk that works\<close>

text \<open>
  What the agent relies on, as long as no removal and no write of metadata failed: a metadata file reads back as it was last written and is
  gone once its directory was removed, and the listing of the state directory holds every directory with metadata, or the state directory does
  not exist when there are none, as on the first start; and, for a disk without failures, directories and metadata files can be made and removed.
\<close>

definition disk_reads :: "env \<Rightarrow> string \<Rightarrow> bool" where
  "disk_reads env d \<longleftrightarrow>
     (\<forall>tr. undamaged tr \<longrightarrow>
        (case e_readDir env tr d of
           Inl e \<Rightarrow> e = NotExist \<and> (\<forall>k. pathElem k \<longrightarrow> filesAfter tr (metaPath d k) = None)
         | Inr entries \<Rightarrow> (\<forall>k. (k, True) \<in> set entries \<longrightarrow> pathElem k) \<and>
             (\<forall>k. pathElem k \<and> filesAfter tr (metaPath d k) \<noteq> None \<longrightarrow> (k, True) \<in> set entries))) \<and>
     (\<forall>tr k. undamaged tr \<and> pathElem k \<longrightarrow> e_readFile env tr (metaPath d k) =
        (case filesAfter tr (metaPath d k) of None \<Rightarrow> Inl NotExist | Some x \<Rightarrow> Inr x))"

lemma disk_reads_dir:
  assumes "disk_reads env d" "undamaged tr"
  shows "case e_readDir env tr d of
      Inl e \<Rightarrow> e = NotExist \<and> (\<forall>k. pathElem k \<longrightarrow> filesAfter tr (metaPath d k) = None)
    | Inr entries \<Rightarrow> (\<forall>k. (k, True) \<in> set entries \<longrightarrow> pathElem k) \<and>
        (\<forall>k. pathElem k \<and> filesAfter tr (metaPath d k) \<noteq> None \<longrightarrow> (k, True) \<in> set entries)"
  using assms unfolding disk_reads_def by blast

lemma disk_reads_file:
  assumes "disk_reads env d" "undamaged tr" "pathElem k"
  shows "e_readFile env tr (metaPath d k) = (case filesAfter tr (metaPath d k) of None \<Rightarrow> Inl NotExist | Some x \<Rightarrow> Inr x)"
  using assms unfolding disk_reads_def by blast

definition disk_ok :: "env \<Rightarrow> string \<Rightarrow> bool" where
  "disk_ok env d \<longleftrightarrow>
     (\<forall>tr p. e_err env tr (MkdirAll p) = None \<and> e_err env tr (RemoveAll p) = None) \<and>
     (\<forall>tr p j. e_err env tr (WriteFile p (Doc j)) = None) \<and> disk_reads env d"

text \<open>The answers of such a disk, for examples.\<close>

definition diskRead :: "trace \<Rightarrow> string \<Rightarrow> oserr + content" where
  "diskRead tr p = (case filesAfter tr p of None \<Rightarrow> Inl NotExist | Some x \<Rightarrow> Inr x)"

fun writtenName :: "string \<Rightarrow> call \<times> oserr option \<Rightarrow> string" where
  "writtenName d (WriteFile p _, _) = drop (length (below d)) (take (length p - 10) p)"
| "writtenName d _ = []"

definition diskEntries :: "trace \<Rightarrow> string \<Rightarrow> (string \<times> bool) list" where
  "diskEntries tr d =
     map (\<lambda>k. (k, True)) (filter (\<lambda>k. pathElem k \<and> filesAfter tr (metaPath d k) \<noteq> None) (map (writtenName d) tr))"

lemma diskEntries_iff:
  "(k, True) \<in> set (diskEntries tr d) \<longleftrightarrow> pathElem k \<and> filesAfter tr (metaPath d k) \<noteq> None"
proof -
  have "k \<in> writtenName d ` set tr" if "pathElem k" "filesAfter tr (metaPath d k) = Some x" for x
  proof -
    have "(WriteFile (metaPath d k) x, None) \<in> set tr" by (rule filesAfter_written [OF that(2)])
    moreover have "writtenName d (WriteFile (metaPath d k) x, None) = k" by (simp add: metaPath_eq [OF that(1)])
    ultimately show ?thesis by (metis imageI)
  qed
  then show ?thesis by (auto simp: diskEntries_def)
qed

lemma disk_reads_example:
  assumes "e_readDir env = (\<lambda>tr d. Inr (diskEntries tr d))" "e_readFile env = diskRead"
  shows "disk_reads env d"
  using assms diskEntries_iff by (auto simp: disk_reads_def diskRead_def)

lemma disk_ok_example:
  assumes "\<And>tr p. e_err env tr (MkdirAll p) = None" "\<And>tr p. e_err env tr (RemoveAll p) = None"
    "\<And>tr p j. e_err env tr (WriteFile p (Doc j)) = None"
    "e_readDir env = (\<lambda>tr d. Inr (diskEntries tr d))" "e_readFile env = diskRead"
  shows "disk_ok env d"
  using assms(1-3) disk_reads_example [OF assms(4,5)] by (simp add: disk_ok_def)

end
