(* ===== verification/Network_Effects.thy ===== *)
theory Network_Effects
  imports Network Disk
begin

text \<open>
  What the calls of \<open>network.go\<close> leave behind on the host: the iptables rules and the tap
  devices that exist after a trace, computed from the successful calls in it. A rule is its table
  and its arguments after the operation; \<open>-A\<close> adds one occurrence, \<open>-D\<close> removes one.
  \<open>net_ok\<close> states the documented behaviour of netlink and iptables the agent relies on when it
  cleans up: an existing device is found and can be deleted, a device name is not given
  twice, and a rule that is present can be deleted.
\<close>

type_synonym rule = "string \<times> string list"

fun iptSplit :: "string list \<Rightarrow> string \<times> rule" where
  "iptSplit (x # y # z # r) =
     (if x = ''-t'' then (z, y, r) else (x, ''filter'', y # z # r))"
| "iptSplit xs = ([], [], xs)"

fun ruleEffect :: "call \<times> oserr option \<Rightarrow> rule multiset \<Rightarrow> rule multiset" where
  "ruleEffect (Exec prog args, None) M =
     (if prog = ''iptables'' then
        (case iptSplit args of (op, r) \<Rightarrow>
           if op = ''-A'' then add_mset r M else if op = ''-D'' then M - {#r#} else M)
      else M)"
| "ruleEffect _ M = M"

definition rulesAfter :: "rule multiset \<Rightarrow> trace \<Rightarrow> rule multiset" where
  "rulesAfter M tr = fold ruleEffect tr M"

fun tapEffect :: "call \<times> oserr option \<Rightarrow> string set \<Rightarrow> string set" where
  "tapEffect (LinkAdd n, None) T = insert n T"
| "tapEffect (LinkDel n, None) T = T - {n}"
| "tapEffect _ T = T"

definition tapsAfter :: "string set \<Rightarrow> trace \<Rightarrow> string set" where
  "tapsAfter T tr = fold tapEffect tr T"

lemma rulesAfter_append [simp]: "rulesAfter M (tr @ ev) = rulesAfter (rulesAfter M tr) ev"
  and rulesAfter_Nil [simp]: "rulesAfter M [] = M"
  and rulesAfter_Cons [simp]: "rulesAfter M (c # ev) = rulesAfter (ruleEffect c M) ev"
  by (simp_all add: rulesAfter_def)

lemma tapsAfter_append [simp]: "tapsAfter T (tr @ ev) = tapsAfter (tapsAfter T tr) ev"
  and tapsAfter_Nil [simp]: "tapsAfter T [] = T"
  and tapsAfter_Cons [simp]: "tapsAfter T (c # ev) = tapsAfter (tapEffect c T) ev"
  by (simp_all add: tapsAfter_def)

lemma ruleEffect_failed [simp]: "ruleEffect (c, Some e) M = M"
  by (cases c) simp_all

lemma tapEffect_failed [simp]: "tapEffect (c, Some e) T = T"
  by (cases c) simp_all

lemma tapEffect_Exec [simp]: "tapEffect (Exec p a, e) T = T"
  by (cases e) simp_all

definition net_ok :: "env \<Rightarrow> rule multiset \<Rightarrow> string set \<Rightarrow> bool" where
  "net_ok env M T \<longleftrightarrow>
     (\<forall>tr n. e_err env tr (LinkByName n) = None \<longleftrightarrow> n \<in> tapsAfter T tr) \<and>
     (\<forall>tr n. n \<in> tapsAfter T tr \<longrightarrow> e_err env tr (LinkDel n) = None) \<and>
     (\<forall>tr n. e_err env tr (LinkAdd n) = None \<longrightarrow> n \<notin> tapsAfter T tr) \<and>
     (\<forall>tr args r. iptSplit args = (''-D'', r) \<and> r \<in># rulesAfter M tr \<longrightarrow>
        e_err env tr (Exec ''iptables'' args) = None)"

section \<open>Running lists of iptables commands\<close>

abbreviation iptCall :: "string list \<Rightarrow> call" where
  "iptCall args \<equiv> Exec ''iptables'' args"

lemma runSteps_ok:
  "runSteps env steps tr = (None, tr') \<Longrightarrow> tr' = tr @ map (\<lambda>a. (iptCall a, None)) steps"
proof (induction steps arbitrary: tr)
  case (Cons a steps)
  from Cons.prems have "runSteps env steps (tr @ [(iptCall a, None)]) = (None, tr')"
    by (auto simp: runCmd_def perform_def Let_def wrapErr_def split: prod.splits option.splits)
  from Cons.IH [OF this] show ?case by simp
qed simp

lemma runSteps_err:
  "runSteps env steps tr = (Some e, tr') \<Longrightarrow>
   \<exists>k x. k < length steps \<and> e = Wrap ''iptables'' (Os x) \<and>
     tr' = tr @ map (\<lambda>a. (iptCall a, None)) (take k steps) @ [(iptCall (steps ! k), Some x)]"
proof (induction steps arbitrary: tr)
  case (Cons a steps)
  show ?case
  proof (cases "e_err env tr (iptCall a)")
    case None
    with Cons.prems have "runSteps env steps (tr @ [(iptCall a, None)]) = (Some e, tr')"
      by (simp add: runCmd_def perform_def Let_def)
    from Cons.IH [OF this] obtain k x where "k < length steps" "e = Wrap ''iptables'' (Os x)"
      "tr' = (tr @ [(iptCall a, None)]) @ map (\<lambda>a. (iptCall a, None)) (take k steps) @
         [(iptCall (steps ! k), Some x)]" by blast
    then show ?thesis by (intro exI [of _ "Suc k"] exI [of _ x]) simp
  next
    case (Some x)
    with Cons.prems show ?thesis
      by (intro exI [of _ 0] exI [of _ x]) (simp add: runCmd_def perform_def Let_def)
  qed
qed simp

lemma runAllSteps_trace:
  "runAllSteps env steps f tr = (r, tr') \<Longrightarrow>
   \<exists>rs. length rs = length steps \<and> tr' = tr @ zip (map iptCall steps) rs"
proof (induction steps arbitrary: f tr)
  case (Cons a steps)
  let ?e = "e_err env tr (iptCall a)"
  from Cons.prems obtain f' where "runAllSteps env steps f' (tr @ [(iptCall a, ?e)]) = (r, tr')"
    by (auto simp: runCmd_def perform_def Let_def)
  from Cons.IH [OF this] obtain rs where "length rs = length steps"
    "tr' = (tr @ [(iptCall a, ?e)]) @ zip (map iptCall steps) rs" by blast
  then show ?case by (intro exI [of _ "?e # rs"]) simp
qed simp

lemma tapsAfter_ipt: "tapsAfter T (zip (map iptCall steps) rs) = T"
proof (induction steps arbitrary: rs)
  case (Cons a steps)
  then show ?case by (cases rs) simp_all
qed simp

lemma tapsAfter_ipt_ok [simp]: "tapsAfter T (map (\<lambda>a. (iptCall a, None)) steps) = T"
  by (induction steps) simp_all

section \<open>The rules of one VM\<close>

definition vmRules :: "Config \<Rightarrow> NetConfig \<Rightarrow> rule multiset" where
  "vmRules cfg nc = mset (map (snd \<circ> iptSplit) (setupFirewallSteps cfg nc))"

lemma setup_steps_append: "list_all (\<lambda>a. fst (iptSplit a) = ''-A'') (setupFirewallSteps cfg nc)"
  by (simp add: setupFirewallSteps_def Let_def)

lemma teardown_steps_delete:
  "list_all (\<lambda>a. fst (iptSplit a) = ''-D'') (teardownFirewallSteps cfg nc)"
  by (simp add: teardownFirewallSteps_def Let_def)

lemma rulesAfter_appends:
  "list_all (\<lambda>a. fst (iptSplit a) = ''-A'') steps \<Longrightarrow>
   rulesAfter M (map (\<lambda>a. (iptCall a, None)) steps) = M + mset (map (snd \<circ> iptSplit) steps)"
  by (induction steps arbitrary: M) (auto split: prod.splits)

text \<open>
  The commands of \<open>teardownFirewall\<close> are those of \<open>setupFirewall\<close>, in the same order
  and on the same tables, with \<open>-D\<close> in the place of \<open>-A\<close> and nothing else changed.
\<close>

theorem teardown_steps_mirror_setup:
  "map iptSplit (teardownFirewallSteps cfg nc) =
     map (\<lambda>a. (''-D'', snd (iptSplit a))) (setupFirewallSteps cfg nc) \<and>
   list_all (\<lambda>a. fst (iptSplit a) = ''-A'') (setupFirewallSteps cfg nc)"
  by (simp add: setup_steps_append)
    (simp add: teardownFirewallSteps_def setupFirewallSteps_def Let_def)

lemma teardown_rules: "map (snd \<circ> iptSplit) (teardownFirewallSteps cfg nc) =
    map (snd \<circ> iptSplit) (setupFirewallSteps cfg nc)"
  by (simp add: teardownFirewallSteps_def setupFirewallSteps_def Let_def)

section \<open>Set-up\<close>

lemma setupFirewall_ok:
  assumes "setupFirewall env cfg nc tr = (None, tr')"
  shows "rulesAfter M tr' = rulesAfter M tr + vmRules cfg nc" "tapsAfter T tr' = tapsAfter T tr"
    "\<exists>ev. tr' = tr @ ev"
proof -
  let ?sys = "(Exec ''sysctl'' [''-w'', ''net.ipv4.ip_forward=1''], None :: oserr option)"
  from assms have "runSteps env (setupFirewallSteps cfg nc) (tr @ [?sys]) = (None, tr')"
    by (auto simp: setupFirewall_def runCmd_def perform_def Let_def wrapErr_def
      split: option.splits)
  from runSteps_ok [OF this] have tr':
    "tr' = (tr @ [?sys]) @ map (\<lambda>a. (iptCall a, None)) (setupFirewallSteps cfg nc)" .
  show "rulesAfter M tr' = rulesAfter M tr + vmRules cfg nc"
    unfolding tr' by (simp add: rulesAfter_appends setup_steps_append vmRules_def)
  show "tapsAfter T tr' = tapsAfter T tr" "\<exists>ev. tr' = tr @ ev"
    unfolding tr' by simp_all
qed

lemma setupFirewall_err:
  assumes "setupFirewall env cfg nc tr = (Some err, tr')"
  shows "\<exists>k<length (setupFirewallSteps cfg nc).
    rulesAfter M tr' =
      rulesAfter M tr + mset (map (snd \<circ> iptSplit) (take k (setupFirewallSteps cfg nc)))"
proof -
  let ?sys = "Exec ''sysctl'' [''-w'', ''net.ipv4.ip_forward=1'']"
  show ?thesis
  proof (cases "e_err env tr ?sys")
    case (Some x)
    with assms have "rulesAfter M tr' = rulesAfter M tr"
      by (auto simp: setupFirewall_def runCmd_def perform_def Let_def)
    then show ?thesis
      by (intro exI [of _ 0]) (simp add: setupFirewallSteps_def Let_def)
  next
    case None
    with assms have "runSteps env (setupFirewallSteps cfg nc) (tr @ [(?sys, None)]) = (Some err, tr')"
      by (auto simp: setupFirewall_def runCmd_def perform_def Let_def)
    from runSteps_err [OF this] obtain k x where k: "k < length (setupFirewallSteps cfg nc)"
      and tr': "tr' = (tr @ [(?sys, None)]) @
         map (\<lambda>a. (iptCall a, None)) (take k (setupFirewallSteps cfg nc)) @
         [(iptCall (setupFirewallSteps cfg nc ! k), Some x)]" by blast
    have "list_all (\<lambda>a. fst (iptSplit a) = ''-A'') (take k (setupFirewallSteps cfg nc))"
      using setup_steps_append by (metis append_take_drop_id list_all_append)
    from rulesAfter_appends [OF this] k show ?thesis
      unfolding tr' by auto
  qed
qed

lemma runSteps_taps: "tapsAfter T (snd (runSteps env steps tr)) = tapsAfter T tr"
  by (induction steps arbitrary: tr)
    (auto simp: runCmd_def perform_def Let_def split: option.splits)

lemma setupFirewall_taps: "tapsAfter T (snd (setupFirewall env cfg nc tr)) = tapsAfter T tr"
  by (auto simp: setupFirewall_def runCmd_def perform_def Let_def runSteps_taps split: option.splits)

section \<open>Tear-down\<close>

lemma runAllSteps_deletes:
  assumes "net_ok env M T" "list_all (\<lambda>a. fst (iptSplit a) = ''-D'') steps"
    "runAllSteps env steps f tr = (r, tr')"
  shows "rulesAfter M tr' = rulesAfter M tr - mset (map (snd \<circ> iptSplit) steps)"
  using assms(2,3)
proof (induction steps arbitrary: f tr)
  case (Cons a steps)
  let ?e = "e_err env tr (iptCall a)"
  from Cons.prems obtain f' where
    rest: "runAllSteps env steps f' (tr @ [(iptCall a, ?e)]) = (r, tr')"
    by (auto simp: runCmd_def perform_def Let_def)
  obtain r where r: "iptSplit a = (''-D'', r)"
    using Cons.prems(1) by (cases "iptSplit a") auto
  have "rulesAfter M (tr @ [(iptCall a, ?e)]) = rulesAfter M tr - {#r#}"
  proof (cases ?e)
    case None
    then show ?thesis by (simp add: r)
  next
    case (Some x)
    with assms(1) r have "r \<notin># rulesAfter M tr" unfolding net_ok_def by force
    with Some show ?thesis by simp
  qed
  with Cons.IH [OF _ rest] Cons.prems(1) show ?case
    by (simp add: r del: rulesAfter_append)
qed simp

lemma teardownFirewall_removes_lemma:
  assumes "net_ok env M T"
  shows "rulesAfter M (snd (teardownFirewall env cfg nc tr)) = rulesAfter M tr - vmRules cfg nc"
  using runAllSteps_deletes [OF assms teardown_steps_delete, of cfg nc None tr]
  by (cases "teardownFirewall env cfg nc tr")
    (simp add: teardownFirewall_def vmRules_def teardown_rules)

lemma teardownFirewall_taps: "tapsAfter T (snd (teardownFirewall env cfg nc tr)) = tapsAfter T tr"
proof (cases "teardownFirewall env cfg nc tr")
  case (Pair r tr')
  from runAllSteps_trace [OF Pair [unfolded teardownFirewall_def]] show ?thesis
    using Pair by (auto simp: tapsAfter_ipt)
qed

lemma teardownTapDevice_effect:
  assumes "net_ok env M T"
  shows "tapsAfter T (snd (teardownTapDevice env nc tr)) = tapsAfter T tr - {TapName nc}"
    "rulesAfter M (snd (teardownTapDevice env nc tr)) = rulesAfter M tr"
proof -
  have present: "e_err env tr (LinkByName (TapName nc)) = None \<longleftrightarrow> TapName nc \<in> tapsAfter T tr"
    using assms by (simp add: net_ok_def)
  have del: "TapName nc \<in> tapsAfter T (tr @ [(LinkByName (TapName nc), None)]) \<Longrightarrow>
      e_err env (tr @ [(LinkByName (TapName nc), None)]) (LinkDel (TapName nc)) = None"
    using assms unfolding net_ok_def by blast
  show "tapsAfter T (snd (teardownTapDevice env nc tr)) = tapsAfter T tr - {TapName nc}"
    using present del
    by (auto simp: teardownTapDevice_def perform_def Let_def split: option.splits)
  have linkrule: "ruleEffect (LinkByName n, e) N = N" "ruleEffect (LinkDel n, e) N = N" for n e N
    by (cases e; simp)+
  show "rulesAfter M (snd (teardownTapDevice env nc tr)) = rulesAfter M tr"
    by (auto simp: teardownTapDevice_def perform_def Let_def linkrule split: option.splits)
qed

lemma setupTapDevice_ok:
  assumes "setupTapDevice env nc tr = (None, tr')"
  shows "tapsAfter T tr' = insert (TapName nc) (tapsAfter T tr)"
    "rulesAfter M tr' = rulesAfter M tr"
  using assms
  by (auto simp: setupTapDevice_def perform_def Let_def split: option.splits)

lemma setupTapDevice_failure_effect:
  assumes "net_ok env M T" "setupTapDevice env nc tr = (Some err, tr')"
  shows "tapsAfter T tr' = tapsAfter T tr \<and> rulesAfter M tr' = rulesAfter M tr"
proof -
  have fresh: "e_err env tr (LinkAdd (TapName nc)) = None \<Longrightarrow> TapName nc \<notin> tapsAfter T tr"
    using assms(1) by (simp add: net_ok_def)
  have del: "TapName nc \<in> tapsAfter T tr \<Longrightarrow> e_err env tr (LinkDel (TapName nc)) = None" for tr
    using assms(1) by (simp add: net_ok_def)
  have tapfail: "ruleEffect (LinkDel n, e) N = N" for n e N by (cases e) simp_all
  show ?thesis
    using assms(2) fresh
    by (auto simp: setupTapDevice_def perform_def Let_def performIgnore_eq del tapfail
      split: option.splits)
qed

section \<open>Examples\<close>

text \<open>
  A host that behaves as \<open>net_ok\<close> asks, starts with no tap device and no rule, and refuses the
  calls that \<open>refuse\<close> names. Its disk keeps what is written.
\<close>

definition kernel :: "(call \<Rightarrow> bool) \<Rightarrow> env" where
  "kernel refuse = calm\<lparr>e_readDir := \<lambda>tr d. Inr (diskEntries tr d), e_readFile := diskRead, e_err := \<lambda>tr c.
     case c of
       LinkAdd n \<Rightarrow> if refuse c \<or> n \<in> tapsAfter {} tr then Some (OsErr ''refused'') else None
     | LinkByName n \<Rightarrow> if n \<in> tapsAfter {} tr then None else Some NotExist
     | LinkDel n \<Rightarrow> if n \<in> tapsAfter {} tr then None else Some NotExist
     | Exec p args \<Rightarrow>
         if p = ''iptables'' \<and> fst (iptSplit args) = ''-D'' then
           (if snd (iptSplit args) \<in># rulesAfter {#} tr then None else Some (OsErr ''no such rule''))
         else if refuse c then Some (OsErr ''refused'') else None
     | _ \<Rightarrow> if refuse c then Some (OsErr ''refused'') else None\<rparr>"

lemma kernel_net_ok: "net_ok (kernel refuse) {#} {}"
  by (auto simp: net_ok_def kernel_def)

abbreviation example_nc :: NetConfig where
  "example_nc \<equiv> deriveNetConfig example_cfg 0"

text \<open>
  When \<open>setupFirewall\<close> fails, the host keeps exactly the rules of the commands before
  the failing one: it does not remove them again.
\<close>

theorem setupFirewall_failure_keeps_prefix:
  assumes "setupFirewall env cfg nc tr = (Some err, tr')"
  shows "\<exists>k<length (setupFirewallSteps cfg nc).
    rulesAfter M tr' =
      rulesAfter M tr + mset (map (snd \<circ> iptSplit) (take k (setupFirewallSteps cfg nc)))"
  by (rule setupFirewall_err [OF assms])

text \<open>
  \<open>teardownFirewall\<close> removes one occurrence of each of the VM's rules that the host
  has and nothing else, however much of the set-up was applied and whichever of its commands
  fail, as long as iptables deletes the rules it has.
\<close>

theorem teardownFirewall_removes:
  assumes "net_ok env M T"
  shows "rulesAfter M (snd (teardownFirewall env cfg nc tr)) = rulesAfter M tr - vmRules cfg nc"
  by (rule teardownFirewall_removes_lemma [OF assms])

text \<open>
  \<open>setupTapDevice\<close> is all or nothing: when it fails, at whichever of its three steps, the
  host has the devices and the rules it had before.
\<close>

theorem setupTapDevice_failure_clean:
  assumes "net_ok env M T" "setupTapDevice env nc tr = (Some err, tr')"
  shows "tapsAfter T tr' = tapsAfter T tr \<and> rulesAfter M tr' = rulesAfter M tr"
  by (rule setupTapDevice_failure_effect [OF assms])

theorem setupFirewall_failure_keeps_prefix_witness:
  "\<exists>err tr'. setupFirewall (kernel (\<lambda>c. c = iptCall (setupFirewallSteps example_cfg example_nc ! 2)))
       example_cfg example_nc [] = (Some err, tr') \<and>
     (\<exists>k<7. rulesAfter {#} tr' =
        mset (map (snd \<circ> iptSplit) (take k (setupFirewallSteps example_cfg example_nc))))"
proof -
  let ?env = "kernel (\<lambda>c. c = iptCall (setupFirewallSteps example_cfg example_nc ! 2))"
  obtain r tr' where run: "setupFirewall ?env example_cfg example_nc [] = (r, tr')"
    by (metis surj_pair)
  have "fst (setupFirewall ?env example_cfg example_nc []) \<noteq> None"
    by (simp add: setupFirewall_def setupFirewallSteps_def runCmd_def perform_def kernel_def Let_def)
  with run obtain err where "r = Some err" by auto
  with run have run': "setupFirewall ?env example_cfg example_nc [] = (Some err, tr')" by simp
  have "length (setupFirewallSteps example_cfg example_nc) = 7"
    by (simp add: setupFirewallSteps_def Let_def)
  with setupFirewall_failure_keeps_prefix [OF run', of "{#}"] run' show ?thesis by auto
qed

theorem teardownFirewall_removes_witness:
  "rulesAfter {#} (snd (teardownFirewall (kernel (\<lambda>_. False)) example_cfg example_nc
     [(iptCall (setupFirewallSteps example_cfg example_nc ! 3), None)])) = {#}"
  by (subst teardownFirewall_removes [OF kernel_net_ok])
    (simp add: vmRules_def setupFirewallSteps_def Let_def)

theorem setupTapDevice_failure_clean_witness:
  "\<exists>err tr'. setupTapDevice (kernel (\<lambda>c. c = LinkSetUp (TapName example_nc))) example_nc [] =
       (Some err, tr') \<and> tapsAfter {} tr' = {} \<and> rulesAfter {#} tr' = {#}"
proof -
  let ?env = "kernel (\<lambda>c. c = LinkSetUp (TapName example_nc))"
  obtain r tr' where run: "setupTapDevice ?env example_nc [] = (r, tr')" by (metis surj_pair)
  have "fst (setupTapDevice ?env example_nc []) \<noteq> None"
    by (simp add: setupTapDevice_def perform_def kernel_def Let_def)
  with run obtain err where "r = Some err" by auto
  with run have run': "setupTapDevice ?env example_nc [] = (Some err, tr')" by simp
  from setupTapDevice_failure_clean [OF kernel_net_ok run'] run' show ?thesis by auto
qed

end
