(* ===== verification/Cgroup.thy ===== *)
theory Cgroup
  imports World
begin

text \<open>
  \<open>internal/vmmanager/cgroup.go\<close>: the cgroup v2 leaf that caps one VM's CPU and memory. Every
  step is an outside call on the cgroup file system; a step that fails ends the function
  with its error.
\<close>

definition cgroupMount :: string where
  "cgroupMount = ''/sys/fs/cgroup''"

definition cgroupRoot :: string where
  "cgroupRoot = cgroupMount @ ''/devplat''"

text \<open>The inner and the outer loop of \<open>ensureParentControllers\<close>.\<close>

fun enableControllers :: "env \<Rightarrow> string \<Rightarrow> string list \<Rightarrow> trace \<Rightarrow> error \<times> trace" where
  "enableControllers env p [] tr = (None, tr)"
| "enableControllers env p (ctrl # ctrls) tr =
     (case perform env (WriteFile p (Text ctrl)) tr of
        (Some e, tr) \<Rightarrow> (Some (Wrap (''enable '' @ ctrl @ '' in '' @ p) (Os e)), tr)
      | (None, tr) \<Rightarrow> enableControllers env p ctrls tr)"

fun enableInDirs :: "env \<Rightarrow> string list \<Rightarrow> trace \<Rightarrow> error \<times> trace" where
  "enableInDirs env [] tr = (None, tr)"
| "enableInDirs env (dir # dirs) tr =
     (case enableControllers env (Join [dir, ''cgroup.subtree_control''])
             [''+cpu'', ''+memory''] tr of
        (Some err, tr) \<Rightarrow> (Some err, tr)
      | (None, tr) \<Rightarrow> enableInDirs env dirs tr)"

definition ensureParentControllers :: "env \<Rightarrow> trace \<Rightarrow> error \<times> trace" where
  "ensureParentControllers env tr =
     (case perform env (Stat (Join [cgroupMount, ''cgroup.controllers''])) tr of
        (Some e, tr) \<Rightarrow> (Some (Wrap ''not a cgroup v2 (unified) hierarchy'' (Os e)), tr)
      | (None, tr) \<Rightarrow>
          (case perform env (MkdirAll cgroupRoot) tr of
             (Some e, tr) \<Rightarrow> (Some (Wrap (''create cgroup dir '' @ cgroupRoot) (Os e)), tr)
           | (None, tr) \<Rightarrow> enableInDirs env [cgroupMount, cgroupRoot] tr))"

text \<open>The first controller of a list that is not contained in the text, if any.\<close>

fun missingController :: "string \<Rightarrow> string list \<Rightarrow> string option" where
  "missingController have [] = None"
| "missingController have (want # wants) =
     (if \<not> Contains have want then Some want else missingController have wants)"

definition cpuMax :: "int \<Rightarrow> string" where
  "cpuMax vcpus = Itoa (i64 (vcpus * 100000)) @ '' 100000''"

definition memMax :: "int \<Rightarrow> string" where
  "memMax ramMb = Itoa (i64 (i64 (ramMb * 1024) * 1024))"

definition writeLimits :: "env \<Rightarrow> string \<Rightarrow> int \<Rightarrow> int \<Rightarrow> trace \<Rightarrow> (string \<times> error) \<times> trace" where
  "writeLimits env path vcpus ramMb tr =
     (case perform env (WriteFile (Join [path, ''cpu.max'']) (Text (cpuMax vcpus))) tr of
        (Some e, tr) \<Rightarrow> ((path, Some (Wrap ''set cpu.max'' (Os e))), tr)
      | (None, tr) \<Rightarrow>
          (case perform env (WriteFile (Join [path, ''memory.max'']) (Text (memMax ramMb))) tr of
             (Some e, tr) \<Rightarrow> ((path, Some (Wrap ''set memory.max'' (Os e))), tr)
           | (None, tr) \<Rightarrow> ((path, None), tr)))"

definition createCgroup ::
  "env \<Rightarrow> string \<Rightarrow> int \<Rightarrow> int \<Rightarrow> trace \<Rightarrow> (string \<times> error) \<times> trace" where
  "createCgroup env vmID vcpus ramMb tr =
     (case ensureParentControllers env tr of
        (Some err, tr) \<Rightarrow> (([], Some err), tr)
      | (None, tr) \<Rightarrow>
          (let path = Join [cgroupRoot, vmID] in
           case perform env (MkdirAll path) tr of
             (Some e, tr) \<Rightarrow> (([], Some (Wrap ''create cgroup dir'' (Os e))), tr)
           | (None, tr) \<Rightarrow>
               (case readText env (Join [path, ''cgroup.controllers'']) tr of
                  (Inl _, tr) \<Rightarrow> writeLimits env path vcpus ramMb tr
                | (Inr have, tr) \<Rightarrow>
                    (case missingController have [''cpu'', ''memory''] of
                       Some want \<Rightarrow>
                         ((path, Some (Msg (''controller '' @ want @ '' not available in '' @ path))), tr)
                     | None \<Rightarrow> writeLimits env path vcpus ramMb tr))))"

definition addProcessToCgroup :: "env \<Rightarrow> string \<Rightarrow> int \<Rightarrow> trace \<Rightarrow> error \<times> trace" where
  "addProcessToCgroup env cgroupPath pid tr =
     (let (e, tr) = perform env (WriteFile (Join [cgroupPath, ''cgroup.procs'']) (Text (Itoa pid))) tr
      in (map_option Os e, tr))"

definition removeCgroup :: "env \<Rightarrow> string \<Rightarrow> trace \<Rightarrow> error \<times> trace" where
  "removeCgroup env vmID tr =
     (let (e, tr) = perform env (Remove (Join [cgroupRoot, vmID])) tr
      in (if e = Some NotExist then None else map_option Os e, tr))"

lemmas cgroup_defs [ops] =
  cgroupMount_def cgroupRoot_def ensureParentControllers_def cpuMax_def memMax_def writeLimits_def
  createCgroup_def addProcessToCgroup_def removeCgroup_def

section \<open>The limits a successful createCgroup has written\<close>

lemma writeLimits_ok:
  assumes "writeLimits env path vcpus ramMb tr = ((p, None), tr')"
  shows "p = path" "tr' = tr @ [(WriteFile (Join [path, ''cpu.max'']) (Text (cpuMax vcpus)), None),
    (WriteFile (Join [path, ''memory.max'']) (Text (memMax ramMb)), None)]"
  using assms by (auto simp: writeLimits_def perform_def Let_def split: option.splits)

lemma enableControllers_ok:
  "enableControllers env p ctrls tr = (None, tr') \<Longrightarrow>
   tr' = tr @ map (\<lambda>c. (WriteFile p (Text c), None)) ctrls"
proof (induction ctrls arbitrary: tr)
  case (Cons c ctrls)
  from Cons.prems have "enableControllers env p ctrls (tr @ [(WriteFile p (Text c), None)]) = (None, tr')"
    by (auto simp: perform_def Let_def split: option.splits)
  from Cons.IH [OF this] show ?case by simp
qed simp

text \<open>The writes that enable both controllers in a directory.\<close>

definition enableWrites :: "string \<Rightarrow> trace" where
  "enableWrites dir =
     map (\<lambda>c. (WriteFile (Join [dir, ''cgroup.subtree_control'']) (Text c), None)) [''+cpu'', ''+memory'']"

lemma enableInDirs_ok:
  "enableInDirs env dirs tr = (None, tr') \<Longrightarrow> tr' = tr @ concat (map enableWrites dirs)"
proof (induction dirs arbitrary: tr)
  case (Cons d dirs)
  then obtain tr1 where
    1: "enableControllers env (Join [d, ''cgroup.subtree_control'']) [''+cpu'', ''+memory''] tr = (None, tr1)"
    and 2: "enableInDirs env dirs tr1 = (None, tr')"
    by (auto split: prod.splits option.splits)
  from enableControllers_ok [OF 1] Cons.IH [OF 2] show ?case
    by (simp add: enableWrites_def)
qed simp

text \<open>
  C29. A successful \<open>createCgroup\<close> has enabled both controllers in the mount point and then
  in the parent, has made the leaf only after that, and has written the CPU and the memory limit
  last; all of those calls succeeded. With sizes below the stated bounds the limits are
  the caller's vCPUs and megabytes, not a wrapped value.
\<close>

theorem createCgroup_success:
  assumes "createCgroup env vmID vcpus ramMb tr = ((path, None), tr')"
    and "0 \<le> vcpus" "vcpus < 92233720368547" "0 \<le> ramMb" "ramMb < 8796093022208"
  shows "path = Join [cgroupRoot, vmID] \<and>
    (\<exists>r. tr' = tr @ [(Stat (Join [cgroupMount, ''cgroup.controllers'']), None),
           (MkdirAll cgroupRoot, None)] @ enableWrites cgroupMount @ enableWrites cgroupRoot @
         [(MkdirAll path, None), (ReadFile (Join [path, ''cgroup.controllers'']), r),
          (WriteFile (Join [path, ''cpu.max'']) (Text (Itoa (vcpus * 100000) @ '' 100000'')), None),
          (WriteFile (Join [path, ''memory.max'']) (Text (Itoa (ramMb * 1048576))), None)])"
proof -
  have limits: "cpuMax vcpus = Itoa (vcpus * 100000) @ '' 100000''" "memMax ramMb = Itoa (ramMb * 1048576)"
    using assms(2-) by (simp_all add: cpuMax_def memMax_def i64_nonneg_less mult.commute)
  from assms(1) obtain tr1 where ens: "ensureParentControllers env tr = (None, tr1)"
    by (auto simp: createCgroup_def split: prod.splits option.splits)
  let ?path = "Join [cgroupRoot, vmID]"
  let ?tr0 = "tr @ [(Stat (Join [cgroupMount, ''cgroup.controllers'']), None), (MkdirAll cgroupRoot, None)]"
  from ens have "enableInDirs env [cgroupMount, cgroupRoot] ?tr0 = (None, tr1)"
    by (auto simp: ensureParentControllers_def perform_def Let_def split: option.splits)
  from enableInDirs_ok [OF this] have tr1: "tr1 = ?tr0 @ enableWrites cgroupMount @ enableWrites cgroupRoot"
    by simp
  from assms(1) ens obtain r where
    "writeLimits env ?path vcpus ramMb
      (tr1 @ [(MkdirAll ?path, None), (ReadFile (Join [?path, ''cgroup.controllers'']), r)]) = ((path, None), tr')"
    by (auto simp: createCgroup_def perform_def readText_def Let_def
      simp del: missingController.simps split: option.splits sum.splits)
  from writeLimits_ok [OF this] show ?thesis
    unfolding limits tr1 by auto
qed

theorem createCgroup_success_witness:
  "\<exists>tr'. createCgroup calm ''vm_1'' 2 4096 [] = ((''/sys/fs/cgroup/devplat/vm_1'', None), tr') \<and>
    (WriteFile ''/sys/fs/cgroup/devplat/vm_1/cpu.max'' (Text ''200000 100000''), None) \<in> set tr'"
proof -
  have paths: "Join [cgroupRoot, ''vm_1''] = ''/sys/fs/cgroup/devplat/vm_1''"
      "Join [''/sys/fs/cgroup/devplat/vm_1'', ''cpu.max''] = ''/sys/fs/cgroup/devplat/vm_1/cpu.max''"
      "Itoa 200000 = ''200000''"
    by (simp_all add: cgroupRoot_def cgroupMount_def Join_def Clean_def Itoa_def nat_digits.simps)
  have "fst (createCgroup calm ''vm_1'' 2 4096 []) = (Join [cgroupRoot, ''vm_1''], None)"
    by (simp add: createCgroup_def ensureParentControllers_def perform_def readText_def calm_def
      writeLimits_def Let_def)
  then obtain tr' where run: "createCgroup calm ''vm_1'' 2 4096 [] = ((Join [cgroupRoot, ''vm_1''], None), tr')"
    by (metis prod.collapse)
  from createCgroup_success [OF this] show ?thesis
    using run by (auto simp: paths)
qed

text \<open>
  The sanity check looks for the controller's name anywhere in the list of controllers, so a
  leaf with \<open>cpuset\<close> and without \<open>cpu\<close> passes it.
\<close>

lemma missingController_cpuset: "missingController ''cpuset io memory pids'' [''cpu'', ''memory''] = None"
  by (simp add: HasPrefix_def)

end
