(* ===== verification/Firecracker.thy ===== *)
theory Firecracker
  imports Vm Network_Effects Cgroup
begin

text \<open>
  \<open>internal/vmmanager/firecracker.go\<close>: the production backend. \<open>Boot\<close> is split at the source's own
  paragraphs (network, console, machine, cgroup, readiness); the readiness loop, which
  ends only when the outside answers, is a partial function into \<open>option\<close>. The goroutine that
  copies the console into its log file has no effect on the rest and is left out.
\<close>

section \<open>State\<close>

text \<open>
  The live handles, by VM id. A handle pairs a machine with the cancel function of the
  context it runs under; both are named by the machine.
\<close>

record FcState =
  machines :: "(string, machine) gomap"

definition NewFirecrackerBackend :: FcState where
  "NewFirecrackerBackend = \<lparr>machines = []\<rparr>"

definition hostPublicIP :: "Config \<Rightarrow> string" where
  "hostPublicIP c =
     (case SplitHostPort (ListenAddr c) of Inl _ \<Rightarrow> ListenAddr c | Inr (host, _) \<Rightarrow> host)"

section \<open>Waiting for Docker\<close>

abbreviation millisecond :: int where
  "millisecond \<equiv> 1000000"

partial_function (option) waitLoop ::
  "env \<Rightarrow> string \<Rightarrow> int \<Rightarrow> int \<Rightarrow> trace \<Rightarrow> (error \<times> trace) option" where
  "waitLoop env addr timeout deadline tr =
     (case perform env (DialTimeout addr (500 * millisecond)) tr of
        (None, tr) \<Rightarrow> Some (None, performIgnore env ConnClose tr)
      | (Some x, tr) \<Rightarrow>
          (case timeNow env tr of (t, tr) \<Rightarrow>
             if deadline < t then
               Some (Some (Wrap (''guest docker daemon at '' @ addr @ '' not ready after '' @
                 Duration_String timeout) (Os x)), tr)
             else (case perform env (SelectAfter (200 * millisecond)) tr of
                     (Some _, tr) \<Rightarrow> Some (Some CtxDone, tr)
                   | (None, tr) \<Rightarrow> waitLoop env addr timeout deadline tr)))"

definition waitForDockerReady :: "env \<Rightarrow> ipv4 \<Rightarrow> int \<Rightarrow> trace \<Rightarrow> (error \<times> trace) option" where
  "waitForDockerReady env guestIP timeout tr =
     (let addr = JoinHostPort (IP_String guestIP) ''2375''; (t, tr) = timeNow env tr
      in waitLoop env addr timeout (t + timeout) tr)"

section \<open>Boot\<close>

definition bootNetwork :: "env \<Rightarrow> Config \<Rightarrow> NetConfig \<Rightarrow> trace \<Rightarrow> error \<times> trace" where
  "bootNetwork env c nc tr =
     (case setupTapDevice env nc tr of
        (Some err, tr) \<Rightarrow> (Some (Wrap ''tap setup'' err), tr)
      | (None, tr) \<Rightarrow>
          (case setupFirewall env c nc tr of
             (Some err, tr) \<Rightarrow>
               (Some (Wrap ''firewall setup'' err), snd (teardownTapDevice env nc tr))
           | (None, tr) \<Rightarrow>
               (case setupBandwidthCap env nc (BandwidthCapMbit c) tr of
                  (Some err, tr) \<Rightarrow>
                    (Some (Wrap ''bandwidth cap'' err),
                     snd (teardownTapDevice env nc (snd (teardownFirewall env c nc tr))))
                | (None, tr) \<Rightarrow> (None, tr))))"

definition socketPath :: "Config \<Rightarrow> VM \<Rightarrow> string" where
  "socketPath c vm = Join [VMStateDir c, ID vm, ''firecracker.sock'']"

definition bootConsole :: "env \<Rightarrow> Config \<Rightarrow> VM \<Rightarrow> trace \<Rightarrow> error \<times> trace" where
  "bootConsole env c vm tr =
     (case perform env (MkdirAll (Dir (socketPath c vm))) tr of
        (Some e, tr) \<Rightarrow> (Some (Wrap ''create vm state dir'' (Os e)), tr)
      | (None, tr) \<Rightarrow>
          (case perform env PtyOpen tr of
             (Some e, tr) \<Rightarrow> (Some (Wrap ''open pty for console'' (Os e)), tr)
           | (None, tr) \<Rightarrow>
               (case perform env (OpenFile (Join [VMStateDir c, ID vm, ''console.log''])) tr of
                  (Some e, tr) \<Rightarrow>
                    (Some (Wrap ''open console log'' (Os e)),
                     performIgnore env PtmxClose (performIgnore env TtyClose tr))
                | (None, tr) \<Rightarrow> (None, tr))))"

definition fcCfg :: "Config \<Rightarrow> VM \<Rightarrow> NetConfig \<Rightarrow> string \<Rightarrow> FcConfig" where
  "fcCfg c vm nc rootfsPath =
     \<lparr>FcBinary = FirecrackerBinary c,
      SocketPath = socketPath c vm,
      LogPath = Join [VMStateDir c, ID vm, ''firecracker.log''],
      LogLevel = ''Warning'',
      FcKernelImagePath = KernelImagePath c,
      KernelArgs = ''console=ttyS0 reboot=k panic=1 pci=off random.trust_cpu=on'',
      DriveID = ''rootfs'',
      PathOnHost = rootfsPath,
      IsRootDevice = True,
      IsReadOnly = False,
      HostDevName = TapName nc,
      IPAddr = GuestIP nc,
      IPMaskBits = MaskBits nc,
      Gateway = HostIP nc,
      Nameservers = [''1.1.1.1''],
      VcpuCount = Vcpu vm,
      MemSizeMib = RamMb vm,
      VMID = ID vm\<rparr>"

text \<open>What both failure branches of the machine paragraph do.\<close>

definition abandonMachine :: "env \<Rightarrow> Config \<Rightarrow> NetConfig \<Rightarrow> machine \<Rightarrow> trace \<Rightarrow> trace" where
  "abandonMachine env c nc h tr =
     (let tr = performIgnore env (MachineCancel h) tr;
          tr = performIgnore env TtyClose tr;
          tr = performIgnore env PtmxClose tr;
          tr = snd (teardownFirewall env c nc tr)
      in snd (teardownTapDevice env nc tr))"

definition bootMachine ::
  "env \<Rightarrow> Config \<Rightarrow> VM \<Rightarrow> NetConfig \<Rightarrow> string \<Rightarrow> trace \<Rightarrow> (error \<times> machine) \<times> trace" where
  "bootMachine env c vm nc rootfsPath tr =
     (let h = length tr in
      case perform env (NewMachine (fcCfg c vm nc rootfsPath)) tr of
        (Some e, tr) \<Rightarrow>
          ((Some (Wrap ''configure machine'' (Os e)), h), abandonMachine env c nc h tr)
      | (None, tr) \<Rightarrow>
          (case perform env (MachineStart h) tr of
             (Some e, tr) \<Rightarrow>
               ((Some (Wrap ''start machine'' (Os e)), h), abandonMachine env c nc h tr)
           | (None, tr) \<Rightarrow> ((None, h), performIgnore env TtyClose tr)))"

text \<open>
  The process id, whatever comes with an error included, and the cgroup; every failure here is
  only logged.
\<close>

definition bootCgroup :: "env \<Rightarrow> VM \<Rightarrow> machine \<Rightarrow> trace \<Rightarrow> int \<times> trace" where
  "bootCgroup env vm h tr =
     (let (pid, err) = e_pid env tr h; tr = tr @ [(MachinePID h, err)] in
      case err of
        Some _ \<Rightarrow> (pid, tr)
      | None \<Rightarrow>
          (case createCgroup env (ID vm) (Vcpu vm) (RamMb vm) tr of
             ((_, Some _), tr) \<Rightarrow> (pid, tr)
           | ((cgroupPath, None), tr) \<Rightarrow> (pid, snd (addProcessToCgroup env cgroupPath pid tr))))"

definition abandonGuest :: "env \<Rightarrow> Config \<Rightarrow> NetConfig \<Rightarrow> machine \<Rightarrow> trace \<Rightarrow> trace" where
  "abandonGuest env c nc h tr =
     (let tr = performIgnore env (StopVMM h) tr;
          tr = performIgnore env (MachineCancel h) tr;
          tr = performIgnore env PtmxClose tr;
          tr = snd (teardownFirewall env c nc tr)
      in snd (teardownTapDevice env nc tr))"

definition dockerEndpoint :: "Config \<Rightarrow> NetConfig \<Rightarrow> string" where
  "dockerEndpoint c nc = hostPublicIP c @ '':'' @ Itoa (DockerPort nc)"

definition fcBoot ::
  "env \<Rightarrow> Config \<Rightarrow> VM \<Rightarrow> NetConfig \<Rightarrow> string \<Rightarrow> FcState \<Rightarrow> trace \<Rightarrow>
   (error \<times> VM \<times> FcState \<times> trace) option" where
  "fcBoot env c vm nc rootfsPath st tr =
     (case bootNetwork env c nc tr of
        (Some err, tr) \<Rightarrow> Some (Some err, vm, st, tr)
      | (None, tr) \<Rightarrow>
          (case bootConsole env c vm tr of
             (Some err, tr) \<Rightarrow> Some (Some err, vm, st, tr)
           | (None, tr) \<Rightarrow>
               (case bootMachine env c vm nc rootfsPath tr of
                  ((Some err, _), tr) \<Rightarrow> Some (Some err, vm, st, tr)
                | ((None, h), tr) \<Rightarrow>
                    (case bootCgroup env vm h tr of
                       (pid, tr) \<Rightarrow>
                         Option.bind (waitForDockerReady env (GuestIP nc) (30000 * millisecond) tr)
                           (\<lambda>(err, tr). case err of
                              Some e \<Rightarrow>
                                Some (Some (Wrap ''boot vm'' e), vm, st, abandonGuest env c nc h tr)
                            | None \<Rightarrow>
                                Some (None, vm\<lparr>Pid := pid, DockerEndpoint := dockerEndpoint c nc\<rparr>,
                                  st\<lparr>machines := mput (ID vm) h (machines st)\<rparr>, tr))))))"

section \<open>Stop\<close>

definition fcStop :: "env \<Rightarrow> VM \<Rightarrow> FcState \<Rightarrow> trace \<Rightarrow> error \<times> FcState \<times> trace" where
  "fcStop env vm st tr =
     (case mget (machines st) (ID vm) of
        Some h \<Rightarrow>
          (case perform env (StopVMM h) tr of
             (Some e, tr) \<Rightarrow> (Some (Wrap ''stop vmm'' (Os e)), st, tr)
           | (None, tr) \<Rightarrow>
               (None, st\<lparr>machines := mdel (ID vm) (machines st)\<rparr>,
                performIgnore env (MachineCancel h) tr))
      | None \<Rightarrow>
          if Pid vm = 0 then (None, st, tr)
          else (case perform env (Kill (Pid vm)) tr of
                  (Some e, tr) \<Rightarrow>
                    if e \<noteq> ESRCH then (Some (Wrap (''kill pid '' @ Itoa (Pid vm)) (Os e)), st, tr)
                    else (None, st, tr)
                | (None, tr) \<Rightarrow> (None, st, tr)))"

definition fcBackend :: "env \<Rightarrow> Config \<Rightarrow> FcState Backend" where
  "fcBackend env c = \<lparr>Boot = fcBoot env c, Stop = fcStop env\<rparr>"

lemmas firecracker_defs [ops] =
  NewFirecrackerBackend_def hostPublicIP_def waitForDockerReady_def bootNetwork_def socketPath_def
  bootConsole_def fcCfg_def abandonMachine_def bootMachine_def bootCgroup_def abandonGuest_def
  dockerEndpoint_def fcBoot_def fcStop_def fcBackend_def

end
