(* ===== verification/Hostinfo.thy ===== *)
theory Hostinfo
  imports World
begin

text \<open>
  \<open>internal/vmmanager/hostinfo.go\<close>: the host's CPU count and the \<open>MemTotal\<close> line of
  \<open>/proc/meminfo\<close>. The file's contents are \<^term>\<open>None\<close> when it cannot be opened.
\<close>

definition detectCPUTotal :: "env \<Rightarrow> int" where
  "detectCPUTotal env = e_numCPU env"

definition memTotalLine :: "string \<Rightarrow> int" where
  "memTotalLine line =
     (let fields = Fields line
      in if length fields < 2 then 0
         else case Atoi (fields ! 1) of
                Inl _ \<Rightarrow> 0
              | Inr kb \<Rightarrow> go_div kb 1024)"

fun memTotalScan :: "string list \<Rightarrow> int" where
  "memTotalScan [] = 0"
| "memTotalScan (line # rest) =
     (if \<not> HasPrefix line ''MemTotal:'' then memTotalScan rest else memTotalLine line)"

definition parseMemInfo :: "string option \<Rightarrow> int" where
  "parseMemInfo file = (case file of None \<Rightarrow> 0 | Some s \<Rightarrow> memTotalScan (scanLines s))"

definition detectRamTotalMb :: "env \<Rightarrow> trace \<Rightarrow> int" where
  "detectRamTotalMb env tr = parseMemInfo (e_meminfo env tr)"

lemmas hostinfo_defs [ops] =
  detectCPUTotal_def memTotalLine_def parseMemInfo_def detectRamTotalMb_def

section \<open>Reading the MemTotal line\<close>

lemma spaceLen_space [simp]: "spaceLen (CHR '' '' # s) = 1"
  by (simp add: spaceLen_def numeral_3_eq_3)

lemma spaceLen_nonspace:
  "byte c < 128 \<Longrightarrow> byte c \<notin> {9, 10, 11, 12, 13, 32} \<Longrightarrow> spaceLen (c # s) = 0"
  by (auto simp: spaceLen_def numeral_3_eq_3 split: list.splits)

definition plain_char :: "char \<Rightarrow> bool" where
  "plain_char c \<longleftrightarrow> 32 < byte c \<and> byte c < 128"

lemma fieldsLoop_word:
  "list_all plain_char w \<Longrightarrow> fieldsLoop (w @ s) cur = fieldsLoop s (cur @ w)"
proof (induction w arbitrary: cur)
  case (Cons c w)
  then have "spaceLen (c # w @ s) = 0"
    by (intro spaceLen_nonspace) (auto simp: plain_char_def)
  then show ?case
    using Cons by (simp add: fieldsLoop.simps [of "c # w @ s"])
qed simp

lemma fieldsLoop_space:
  "fieldsLoop (CHR '' '' # s) cur = (if cur = [] then [] else [cur]) @ fieldsLoop s []"
  by (simp add: fieldsLoop.simps [of "CHR '' '' # s"])

lemma fieldsLoop_Nil: "fieldsLoop [] cur = (if cur = [] then [] else [cur])"
  by (simp add: fieldsLoop.simps)

lemma fieldsLoop_spaces: "fieldsLoop (replicate n CHR '' '' @ s) [] = fieldsLoop s []"
  by (induction n) (simp_all add: fieldsLoop_space)

lemma plain_nat_digits: "list_all plain_char (nat_digits n)"
  by (auto simp: list_all_iff plain_char_def dest!: nat_digits_are_digits simp: is_digit_def)

lemma Fields_meminfo:
  "Fields (''MemTotal:'' @ replicate (Suc n) CHR '' '' @ nat_digits kb @ '' kB'') =
     [''MemTotal:'', nat_digits kb, ''kB'']"
proof -
  have "list_all plain_char ''MemTotal:''" "list_all plain_char ''kB''"
    by (simp_all add: plain_char_def)
  then show ?thesis
    using fieldsLoop_word [of "''MemTotal:''"] fieldsLoop_word [of "''kB''" "[]"]
    by (simp add: Fields_def fieldsLoop_word fieldsLoop_space fieldsLoop_spaces fieldsLoop_Nil
      plain_nat_digits)
qed

lemma scanLines_nonempty_line:
  assumes "nl \<notin> set l" "CHR 0x0D \<notin> set l" "length l < maxScanTokenSize"
  shows "scanLines (l @ nl # rest) = l # scanLines rest"
proof -
  have "takeWhile (\<lambda>c. c \<noteq> nl) (l @ nl # rest) = l"
    and "dropWhile (\<lambda>c. c \<noteq> nl) (l @ nl # rest) = nl # rest"
    using assms(1) by (induction l) auto
  moreover have "dropCR l = l"
    using assms(2) by (auto simp: dropCR_def dest: last_in_set)
  ultimately show ?thesis
    using assms(3) by (subst scanLines.simps) (simp add: Let_def)
qed

lemma detectRam_MemTotal:
  assumes "e_meminfo env tr =
      Some (concat (map (\<lambda>l. l @ [nl]) before) @
        (''MemTotal:'' @ replicate (Suc n) CHR '' '' @ nat_digits kb @ '' kB'') @ nl # rest)"
    and "\<forall>l\<in>set before. nl \<notin> set l \<and> CHR 0x0D \<notin> set l \<and> length l < maxScanTokenSize
           \<and> \<not> HasPrefix l ''MemTotal:''"
    and "int kb < 2 ^ 63" "n + length (nat_digits kb) < 65000"
  shows "detectRamTotalMb env tr = int kb div 1024"
proof -
  let ?line = "''MemTotal:'' @ replicate (Suc n) CHR '' '' @ nat_digits kb @ '' kB''"
  have line: "scanLines (?line @ nl # rest) = ?line # scanLines rest"
  proof (rule scanLines_nonempty_line)
    show "nl \<notin> set ?line" and "CHR 0x0D \<notin> set ?line"
      by (auto simp: not_digit_not_in_nat_digits is_digit_def)
    show "length ?line < maxScanTokenSize"
      using assms(4) by (simp add: maxScanTokenSize_def)
  qed
  have skip: "memTotalScan (scanLines (concat (map (\<lambda>l. l @ [nl]) before) @ s)) =
      memTotalScan (scanLines s)" for s
    using assms(2) by (induction before) (simp_all add: scanLines_nonempty_line)
  have "memTotalScan (scanLines (?line @ nl # rest)) = memTotalLine ?line"
    unfolding line by (simp add: HasPrefix_def)
  also have "\<dots> = int kb div 1024"
    using assms(3) unfolding memTotalLine_def Fields_meminfo
    by (simp add: Atoi_nat_digits is_i64_def go_div_def)
  finally show ?thesis
    using assms(1) by (simp add: detectRamTotalMb_def parseMemInfo_def skip)
qed

lemma calm_ram: "parseMemInfo (Some (''MemTotal: 8388608 kB'' @ [nl])) = 8192"
proof -
  let ?env = "calm\<lparr>e_meminfo := \<lambda>_. Some (''MemTotal: 8388608 kB'' @ [nl])\<rparr>"
  have "''MemTotal: 8388608 kB'' @ [nl] = concat (map (\<lambda>l. l @ [nl]) []) @
      (''MemTotal:'' @ replicate (Suc 0) CHR '' '' @ nat_digits 8388608 @ '' kB'') @ nl # []"
    by (simp add: nat_digits.simps)
  then have "e_meminfo ?env [] = Some (concat (map (\<lambda>l. l @ [nl]) []) @
      (''MemTotal:'' @ replicate (Suc 0) CHR '' '' @ nat_digits 8388608 @ '' kB'') @ nl # [])"
    by simp
  from detectRam_MemTotal [OF this] have "detectRamTotalMb ?env [] = 8192" by (simp add: nat_digits.simps)
  then show ?thesis by (simp add: detectRamTotalMb_def)
qed

text \<open>
  On a \<open>/proc/meminfo\<close> in the kernel's format (lines before it that do not start with
  \<open>MemTotal:\<close>, then the name, blanks, a decimal number of kilobytes and \<open>kB\<close>),
  \<open>detectRamTotalMb\<close> is that number divided by 1024, whatever follows the line.
\<close>

theorem detectRam_reads_MemTotal:
  assumes "e_meminfo env tr =
      Some (concat (map (\<lambda>l. l @ [nl]) before) @
        (''MemTotal:'' @ replicate (Suc n) CHR '' '' @ nat_digits kb @ '' kB'') @ nl # rest)"
    and "\<forall>l\<in>set before. nl \<notin> set l \<and> CHR 0x0D \<notin> set l \<and> length l < maxScanTokenSize
           \<and> \<not> HasPrefix l ''MemTotal:''"
    and "int kb < 2 ^ 63" "n + length (nat_digits kb) < 65000"
  shows "detectRamTotalMb env tr = int kb div 1024"
  by (rule detectRam_MemTotal [OF assms])

theorem detectRam_reads_MemTotal_witness:
  "detectRamTotalMb
     (calm\<lparr>e_meminfo := \<lambda>_. Some (concat (map (\<lambda>l. l @ [nl]) [''Header: 1 kB'']) @
        (''MemTotal:'' @ replicate (Suc 1) CHR '' '' @ nat_digits 8388608 @ '' kB'') @
        nl # ''MemFree: 1 kB'')\<rparr>) [] = 8192"
  by (subst detectRam_reads_MemTotal [where before = "[''Header: 1 kB'']" and n = 1
      and kb = 8388608 and rest = "''MemFree: 1 kB''"])
    (simp_all add: HasPrefix_def maxScanTokenSize_def nat_digits.simps)

end
