(* ===== verification/Manager.thy ===== *)
theory Manager
  imports Vm Network_Effects Cgroup Hostinfo
begin

text \<open>
  \<open>internal/vmmanager/manager.go\<close> and \<open>rootfs.go\<close>: the slot and capacity model and the VM life
  cycle, over any backend. Each critical section (\<open>m.mu.Lock()\<close> to \<open>m.mu.Unlock()\<close>) is a
  definition of its own, so that the operations below and the interleavings of
  \<open>Manager_Concurrent\<close> are made of the same parts. Log output and the time readings that only
  feed it are left out.
\<close>

section \<open>State\<close>

record Manager =
  m_cfg :: Config
  vms :: "(string, VM) gomap"
  slots :: "(int, string) gomap"

section \<open>Disk state\<close>

definition vmDir :: "Config \<Rightarrow> string \<Rightarrow> string" where
  "vmDir c vmid = Join [VMStateDir c, vmid]"

definition prepareRootfs :: "env \<Rightarrow> string \<Rightarrow> string \<Rightarrow> trace \<Rightarrow> error \<times> trace" where
  "prepareRootfs env goldenPath destPath tr =
     (case perform env (MkdirAll (Dir destPath)) tr of
        (Some e, tr) \<Rightarrow> (Some (Wrap ''create rootfs dir'' (Os e)), tr)
      | (None, tr) \<Rightarrow>
          (case perform env (Exec ''cp'' [''--sparse=always'', goldenPath, destPath]) tr of
             (Some e, tr) \<Rightarrow> (Some (Wrap (''copy golden image '' @ goldenPath @ '' -> '' @ destPath) (Os e)), tr)
           | (None, tr) \<Rightarrow> (None, tr)))"

definition removeVMDir :: "env \<Rightarrow> string \<Rightarrow> trace \<Rightarrow> error \<times> trace" where
  "removeVMDir env dir tr =
     (let (e, tr) = perform env (RemoveAll dir) tr in (map_option Os e, tr))"

definition persist :: "env \<Rightarrow> Manager \<Rightarrow> VM \<Rightarrow> trace \<Rightarrow> error \<times> trace" where
  "persist env m vm tr =
     (let dir = vmDir (m_cfg m) (ID vm) in
      case perform env (MkdirAll dir) tr of
        (Some e, tr) \<Rightarrow> (Some (Os e), tr)
      | (None, tr) \<Rightarrow>
          (case marshalVM env vm of
             Inl err \<Rightarrow> (Some err, tr)
           | Inr data \<Rightarrow>
               (let (e, tr) = perform env (WriteFile (Join [dir, ''meta.json'']) data) tr
                in (map_option Os e, tr))))"

fun reconcileLoop :: "env \<Rightarrow> (string \<times> bool) list \<Rightarrow> Manager \<Rightarrow> trace \<Rightarrow> Manager \<times> trace" where
  "reconcileLoop env [] m tr = (m, tr)"
| "reconcileLoop env ((name, isDir) # entries) m tr =
     (if \<not> isDir then reconcileLoop env entries m tr
      else case readFile env (Join [VMStateDir (m_cfg m), name, ''meta.json'']) tr of
        (Inl _, tr) \<Rightarrow> reconcileLoop env entries m tr
      | (Inr data, tr) \<Rightarrow>
          (case unmarshalVM data of
             None \<Rightarrow> reconcileLoop env entries m tr
           | Some vm \<Rightarrow>
               reconcileLoop env entries
                 (m\<lparr>vms := mput (ID vm) vm (vms m), slots := mput (Slot vm) (ID vm) (slots m)\<rparr>) tr))"

definition reconcile :: "env \<Rightarrow> Manager \<Rightarrow> trace \<Rightarrow> error \<times> Manager \<times> trace" where
  "reconcile env m tr =
     (case readDir env (VMStateDir (m_cfg m)) tr of
        (Inl NotExist, tr) \<Rightarrow>
          (let (e, tr) = perform env (MkdirAll (VMStateDir (m_cfg m))) tr in (map_option Os e, m, tr))
      | (Inl e, tr) \<Rightarrow> (Some (Os e), m, tr)
      | (Inr entries, tr) \<Rightarrow> (None, reconcileLoop env entries m tr))"

definition emptyManager :: "Config \<Rightarrow> Manager" where
  "emptyManager cfg = \<lparr>m_cfg = cfg, vms = [], slots = []\<rparr>"

definition New :: "env \<Rightarrow> Config \<Rightarrow> trace \<Rightarrow> (gerr + Manager) \<times> trace" where
  "New env cfg tr =
     (case reconcile env (emptyManager cfg) tr of
        (Some err, _, tr) \<Rightarrow> (Inl (Wrap ''reconcile existing VM state'' err), tr)
      | (None, m, tr) \<Rightarrow> (Inr m, tr))"

section \<open>Capacity and slots\<close>

definition capacityCPU :: "env \<Rightarrow> int" where
  "capacityCPU env = detectCPUTotal env"

definition capacityRAMMb :: "env \<Rightarrow> Manager \<Rightarrow> trace \<Rightarrow> int" where
  "capacityRAMMb env m tr =
     (let ram = i64 (detectRamTotalMb env tr - HostReservedRamMb (m_cfg m))
      in if ram < 0 then 0 else ram)"

definition usedCPULocked :: "Manager \<Rightarrow> int" where
  "usedCPULocked m = foldl (\<lambda>sum e. i64 (sum + Vcpu (snd e))) 0 (vms m)"

definition usedRAMMbLocked :: "Manager \<Rightarrow> int" where
  "usedRAMMbLocked m = foldl (\<lambda>sum e. i64 (sum + RamMb (snd e))) 0 (vms m)"

function freeSlotLoop :: "(int, string) gomap \<Rightarrow> int \<Rightarrow> int \<Rightarrow> int \<times> bool" where
  "freeSlotLoop sl i mx =
     (if i < mx then
        (if mget sl i = None then (i, True) else freeSlotLoop sl (i + 1) mx)
      else (0, False))"
  by pat_completeness auto
termination
  by (relation "measure (\<lambda>(sl, i, mx). nat (mx - i))") auto

declare freeSlotLoop.simps [simp del]

definition freeSlot :: "env \<Rightarrow> Manager \<Rightarrow> int \<times> bool" where
  "freeSlot env m = freeSlotLoop (slots m) 0 (capacityCPU env)"

definition time_Minute :: int where
  "time_Minute = 60000000000"

definition newVMID :: "int \<Rightarrow> string" where
  "newVMID t = ''vm_'' @ Itoa (i64 t)"

section \<open>Create\<close>

text \<open>The first critical section: admit, pick a slot, reserve it.\<close>

definition createLocked ::
  "env \<Rightarrow> string \<Rightarrow> int \<Rightarrow> int \<Rightarrow> int \<Rightarrow> Manager \<Rightarrow> trace \<Rightarrow> (gerr + VM) \<times> Manager \<times> trace" where
  "createLocked env teamID ttlMinutes vcpu ramMb m tr =
     (if capacityCPU env < i64 (usedCPULocked m + vcpu)
         \<or> capacityRAMMb env m tr < i64 (usedRAMMbLocked m + ramMb)
      then (Inl ErrNoCapacity, m, tr)
      else case freeSlot env m of
        (_, False) \<Rightarrow> (Inl ErrNoCapacity, m, tr)
      | (slot, True) \<Rightarrow>
          (let (t1, tr) = timeNow env tr; (t2, tr) = timeNow env tr;
               vm = \<lparr>ID = newVMID t1, TeamID = teamID, Slot = slot, Vcpu = vcpu, RamMb = ramMb,
                     DockerEndpoint = [], Pid = 0, CreatedAt = t2,
                     TTL = i64 (ttlMinutes * time_Minute)\<rparr>
           in (Inr vm, m\<lparr>slots := mput slot (ID vm) (slots m)\<rparr>, tr)))"

definition releaseSlot :: "int \<Rightarrow> Manager \<Rightarrow> Manager" where
  "releaseSlot slot m = m\<lparr>slots := mdel slot (slots m)\<rparr>"

text \<open>The last critical section.\<close>

definition commitVM :: "VM \<Rightarrow> Manager \<Rightarrow> Manager" where
  "commitVM vm m = m\<lparr>vms := mput (ID vm) vm (vms m)\<rparr>"

definition Create ::
  "env \<Rightarrow> 'b Backend \<Rightarrow> string \<Rightarrow> int \<Rightarrow> int \<Rightarrow> int \<Rightarrow> Manager \<Rightarrow> 'b \<Rightarrow> trace \<Rightarrow>
   ((gerr + VM) \<times> Manager \<times> 'b \<times> trace) option" where
  "Create env B teamID ttl vcpu ramMb m b tr =
     (let ttlMinutes = (if ttl \<le> 0 then DefaultTTLMinutes (m_cfg m) else ttl) in
      if vcpu \<le> 0 \<or> ramMb \<le> 0 then
        Some (Inl (Msg (''vcpu and ram_mb must be positive (got '' @ Itoa vcpu @ '' vcpu, '' @ Itoa ramMb @ '' MB)'')),
          m, b, tr)
      else case createLocked env teamID ttlMinutes vcpu ramMb m tr of
        (Inl err, m, tr) \<Rightarrow> Some (Inl err, m, b, tr)
      | (Inr vm, m, tr) \<Rightarrow>
          (let slot = Slot vm;
               nc = deriveNetConfig (m_cfg m) slot;
               rootfsPath = Join [VMStateDir (m_cfg m), ID vm, ''rootfs.ext4'']
           in case prepareRootfs env (GoldenImagePath (m_cfg m)) rootfsPath tr of
                (Some err, tr) \<Rightarrow> Some (Inl (Wrap ''prepare rootfs'' err), releaseSlot slot m, b, tr)
              | (None, tr) \<Rightarrow>
                  Option.bind (Boot B vm nc rootfsPath b tr) (\<lambda>(err, vm, b, tr).
                    case err of
                      Some e \<Rightarrow>
                        Some (Inl (Wrap ''boot vm'' e), releaseSlot slot m, b,
                          snd (removeVMDir env (vmDir (m_cfg m) (ID vm)) tr))
                    | None \<Rightarrow>
                        Some (Inr vm, commitVM vm m, b, snd (persist env m vm tr)))))"

section \<open>Destroy\<close>

text \<open>What \<open>Destroy\<close> does outside the lock once the VM is stopped; every error is dropped.\<close>

definition destroyCleanup :: "env \<Rightarrow> Config \<Rightarrow> VM \<Rightarrow> trace \<Rightarrow> trace" where
  "destroyCleanup env c vm tr =
     (let nc = deriveNetConfig c (Slot vm);
          tr = snd (teardownFirewall env c nc tr);
          tr = snd (teardownTapDevice env nc tr);
          tr = snd (removeCgroup env (ID vm) tr)
      in snd (removeVMDir env (vmDir c (ID vm)) tr))"

definition destroyLocked :: "string \<Rightarrow> VM \<Rightarrow> Manager \<Rightarrow> Manager" where
  "destroyLocked vmid vm m = m\<lparr>vms := mdel vmid (vms m), slots := mdel (Slot vm) (slots m)\<rparr>"

definition Destroy ::
  "env \<Rightarrow> 'b Backend \<Rightarrow> string \<Rightarrow> Manager \<Rightarrow> 'b \<Rightarrow> trace \<Rightarrow> error \<times> Manager \<times> 'b \<times> trace" where
  "Destroy env B vmid m b tr =
     (case mget (vms m) vmid of
        None \<Rightarrow> (Some ErrNotFound, m, b, tr)
      | Some vm \<Rightarrow>
          (case Stop B vm b tr of
             (Some err, b, tr) \<Rightarrow> (Some (Wrap ''stop vm'' err), m, b, tr)
           | (None, b, tr) \<Rightarrow> (None, destroyLocked vmid vm m, b, destroyCleanup env (m_cfg m) vm tr)))"

section \<open>Queries\<close>

definition List :: "Manager \<Rightarrow> VM list" where
  "List m = map snd (vms m)"

definition Get :: "string \<Rightarrow> Manager \<Rightarrow> VM option" where
  "Get vmid m = mget (vms m) vmid"

definition GuestAddr :: "string \<Rightarrow> int \<Rightarrow> Manager \<Rightarrow> gerr + string" where
  "GuestAddr vmid port m =
     (case mget (vms m) vmid of
        None \<Rightarrow> Inl ErrNotFound
      | Some vm \<Rightarrow>
          Inr (JoinHostPort (IP_String (GuestIP (deriveNetConfig (m_cfg m) (Slot vm)))) (Itoa port)))"

record HealthStatus =
  CPUTotal :: int
  CPUUsed :: int
  RAMTotalMb :: int
  RAMUsedMb :: int
  ActiveVMCount :: int

definition Health :: "env \<Rightarrow> Manager \<Rightarrow> trace \<Rightarrow> HealthStatus" where
  "Health env m tr =
     \<lparr>CPUTotal = capacityCPU env, CPUUsed = usedCPULocked m, RAMTotalMb = capacityRAMMb env m tr,
      RAMUsedMb = usedRAMMbLocked m, ActiveVMCount = int (length (vms m))\<rparr>"

section \<open>ReapExpired\<close>

definition expiredIDs :: "int \<Rightarrow> Manager \<Rightarrow> string list" where
  "expiredIDs now m = map fst (filter (\<lambda>e. ExpiresAt (snd e) < now) (vms m))"

fun reapLoop ::
  "env \<Rightarrow> 'b Backend \<Rightarrow> string list \<Rightarrow> Manager \<Rightarrow> 'b \<Rightarrow> trace \<Rightarrow> string list \<times> Manager \<times> 'b \<times> trace" where
  "reapLoop env B [] m b tr = ([], m, b, tr)"
| "reapLoop env B (vmid # ids) m b tr =
     (case Destroy env B vmid m b tr of
        (Some _, m, b, tr) \<Rightarrow> reapLoop env B ids m b tr
      | (None, m, b, tr) \<Rightarrow>
          (let (reaped, r) = reapLoop env B ids m b tr in (vmid # reaped, r)))"

definition ReapExpired ::
  "env \<Rightarrow> 'b Backend \<Rightarrow> Manager \<Rightarrow> 'b \<Rightarrow> trace \<Rightarrow> string list \<times> Manager \<times> 'b \<times> trace" where
  "ReapExpired env B m b tr =
     (let (now, tr) = timeNow env tr in reapLoop env B (expiredIDs now m) m b tr)"

lemmas manager_defs [ops] =
  vmDir_def prepareRootfs_def removeVMDir_def persist_def reconcile_def emptyManager_def New_def
  capacityCPU_def capacityRAMMb_def usedCPULocked_def usedRAMMbLocked_def freeSlot_def
  time_Minute_def newVMID_def createLocked_def releaseSlot_def commitVM_def Create_def
  destroyCleanup_def destroyLocked_def Destroy_def List_def Get_def GuestAddr_def Health_def
  expiredIDs_def ReapExpired_def

end
