(* ===== verification/Manager_Props.thy ===== *)
theory Manager_Props
  imports Manager
begin

text \<open>
  What the VM manager guarantees when its operations run one after the other: the lowest free
  slot is taken, the bookkeeping invariant is kept by every operation, a failed operation changes
  nothing, the CPU and memory budgets are respected, and slots are reused. The lemmas on
  \<open>Create\<close>, \<open>Destroy\<close> and \<open>ReapExpired\<close> are proved in the context of the backend contract.
\<close>

section \<open>The lowest free slot\<close>

lemma freeSlotLoop_found:
  "freeSlotLoop sl i mx = (s, True) \<Longrightarrow>
   i \<le> s \<and> s < mx \<and> mget sl s = None \<and> (\<forall>j. i \<le> j \<and> j < s \<longrightarrow> mget sl j \<noteq> None)"
proof (induction sl i mx rule: freeSlotLoop.induct)
  case (1 sl i mx)
  show ?case
  proof (cases "i < mx \<and> mget sl i \<noteq> None")
    case True
    with "1.prems" have "freeSlotLoop sl (i + 1) mx = (s, True)"
      by (simp add: freeSlotLoop.simps [of sl i])
    with True "1.IH" have "i + 1 \<le> s \<and> s < mx \<and> mget sl s = None \<and>
        (\<forall>j. i + 1 \<le> j \<and> j < s \<longrightarrow> mget sl j \<noteq> None)" by blast
    with True show ?thesis by (metis add1_zle_eq order_le_less)
  next
    case False
    with "1.prems" show ?thesis by (auto simp: freeSlotLoop.simps [of sl i] split: if_splits)
  qed
qed

lemma freeSlotLoop_none:
  "freeSlotLoop sl i mx = (s, False) \<Longrightarrow> i \<le> j \<Longrightarrow> j < mx \<Longrightarrow> mget sl j \<noteq> None"
proof (induction sl i mx rule: freeSlotLoop.induct)
  case (1 sl i mx)
  then have "mget sl i \<noteq> None" "freeSlotLoop sl (i + 1) mx = (s, False)"
    by (auto simp: freeSlotLoop.simps [of sl i] split: if_splits)
  with 1 show ?case by (cases "j = i") auto
qed

lemma freeSlotLoop_zero: "freeSlotLoop sl i mx = (s, False) \<Longrightarrow> s = 0"
  by (induction sl i mx rule: freeSlotLoop.induct) (simp add: freeSlotLoop.simps split: if_splits)

text \<open>The slots below the CPU count that nobody holds, and what the comment on \<open>freeSlot\<close> asks for.\<close>

definition unusedSlots :: "env \<Rightarrow> Manager \<Rightarrow> int set" where
  "unusedSlots env m = {0..<capacityCPU env} - dom (mget (slots m))"

text \<open>
  C28. The loop of \<open>freeSlot\<close> computes what its comment says: the least slot index below the number of
  CPUs that is not in use, and no slot if and only if there is none.
\<close>

theorem freeSlot_lowest_unused:
  "freeSlot env m = (if unusedSlots env m = {} then (0, False) else (Min (unusedSlots env m), True))"
proof (cases "freeSlot env m")
  case (Pair s found)
  show ?thesis
  proof (cases found)
    case True
    with Pair freeSlotLoop_found [of "slots m" 0 "capacityCPU env" s]
    have s: "s \<in> unusedSlots env m" "\<And>j. j \<in> unusedSlots env m \<Longrightarrow> s \<le> j"
      by (force simp: freeSlot_def unusedSlots_def)+
    moreover have "finite (unusedSlots env m)" by (simp add: unusedSlots_def)
    ultimately have "Min (unusedSlots env m) = s" by (intro Min_eqI)
    with s(1) True Pair show ?thesis by auto
  next
    case False
    with Pair freeSlotLoop_none [of "slots m" 0 "capacityCPU env" s] have "unusedSlots env m = {}"
      by (force simp: freeSlot_def unusedSlots_def)
    moreover from False Pair have "s = 0"
      using freeSlotLoop_zero [of "slots m" 0 "capacityCPU env" s] by (simp add: freeSlot_def)
    ultimately show ?thesis using Pair False by simp
  qed
qed

section \<open>Committed resources\<close>

definition cpuSum :: "Manager \<Rightarrow> int" where
  "cpuSum m = (\<Sum>e\<leftarrow>vms m. Vcpu (snd e))"

definition ramSum :: "Manager \<Rightarrow> int" where
  "ramSum m = (\<Sum>e\<leftarrow>vms m. RamMb (snd e))"

lemma foldl_i64: "foldl (\<lambda>s e. i64 (s + f e)) (i64 a) xs = i64 (a + (\<Sum>e\<leftarrow>xs. f e))"
proof (induction xs arbitrary: a)
  case (Cons x xs)
  have "foldl (\<lambda>s e. i64 (s + f e)) (i64 a) (x # xs) = foldl (\<lambda>s e. i64 (s + f e)) (i64 (a + f x)) xs"
    by (simp add: i64_add_left)
  also have "\<dots> = i64 (a + f x + (\<Sum>e\<leftarrow>xs. f e))" by (rule Cons)
  finally show ?case by (simp add: add.assoc)
qed simp

lemma usedCPULocked_eq: "usedCPULocked m = i64 (cpuSum m)"
  using foldl_i64 [of "\<lambda>e. Vcpu (snd e)" 0 "vms m"] by (simp add: usedCPULocked_def cpuSum_def)

lemma usedRAMMbLocked_eq: "usedRAMMbLocked m = i64 (ramSum m)"
  using foldl_i64 [of "\<lambda>e. RamMb (snd e)" 0 "vms m"] by (simp add: usedRAMMbLocked_def ramSum_def)

section \<open>The bookkeeping invariant\<close>

text \<open>
  Both maps have distinct keys; a VM is filed under its own id, holds its slot, and has a
  positive size. \<open>quiescent\<close> adds that no slot is reserved for a VM that is not there, which
  is so whenever no \<open>Create\<close> is under way.
\<close>

definition wf_mgr :: "Manager \<Rightarrow> bool" where
  "wf_mgr m \<longleftrightarrow> wf_map (vms m) \<and> wf_map (slots m) \<and>
     (\<forall>k vm. mget (vms m) k = Some vm \<longrightarrow>
        ID vm = k \<and> mget (slots m) (Slot vm) = Some k \<and> 0 < Vcpu vm \<and> 0 < RamMb vm)"

definition quiescent :: "Manager \<Rightarrow> bool" where
  "quiescent m \<longleftrightarrow>
     (\<forall>s k. mget (slots m) s = Some k \<longrightarrow> (\<exists>vm. mget (vms m) k = Some vm \<and> Slot vm = s))"

lemma wf_mgrD:
  assumes "wf_mgr m"
  shows "wf_map (vms m)" "wf_map (slots m)"
    "mget (vms m) k = Some vm \<Longrightarrow> ID vm = k"
    "mget (vms m) k = Some vm \<Longrightarrow> mget (slots m) (Slot vm) = Some k"
    "mget (vms m) k = Some vm \<Longrightarrow> 0 < Vcpu vm"
    "mget (vms m) k = Some vm \<Longrightarrow> 0 < RamMb vm"
  using assms by (auto simp: wf_mgr_def)

lemma wf_mgr_slots_inj:
  "wf_mgr m \<Longrightarrow> mget (vms m) k = Some vm \<Longrightarrow> mget (vms m) k' = Some vm' \<Longrightarrow> Slot vm = Slot vm' \<Longrightarrow> k = k'"
  by (metis option.inject wf_mgrD(4))

lemma sum_pos: "wf_mgr m \<Longrightarrow> int (length (vms m)) \<le> cpuSum m" "wf_mgr m \<Longrightarrow> int (length (vms m)) \<le> ramSum m"
proof -
  assume wf: "wf_mgr m"
  have "1 \<le> Vcpu (snd e)" "1 \<le> RamMb (snd e)" if "e \<in> set (vms m)" for e
  proof -
    have "mget (vms m) (fst e) = Some (snd e)"
      using that gm.entries_iff [OF wf_mgrD(1) [OF wf], of "fst e" "snd e"] by simp
    from wf_mgrD(5,6) [OF wf this] show "1 \<le> Vcpu (snd e)" "1 \<le> RamMb (snd e)" by simp_all
  qed
  then show "int (length (vms m)) \<le> cpuSum m" "int (length (vms m)) \<le> ramSum m"
    unfolding cpuSum_def ramSum_def by (simp_all add: sum_list_ge_length)
qed

section \<open>Admission\<close>

definition admitted :: "env \<Rightarrow> Manager \<Rightarrow> trace \<Rightarrow> int \<Rightarrow> int \<Rightarrow> bool" where
  "admitted env m tr vcpu ramMb \<longleftrightarrow>
     i64 (usedCPULocked m + vcpu) \<le> capacityCPU env \<and>
     i64 (usedRAMMbLocked m + ramMb) \<le> capacityRAMMb env m tr"

definition reserved :: "env \<Rightarrow> string \<Rightarrow> int \<Rightarrow> int \<Rightarrow> int \<Rightarrow> int \<Rightarrow> trace \<Rightarrow> VM" where
  "reserved env teamID ttlMinutes vcpu ramMb slot tr =
     \<lparr>ID = newVMID (e_now env tr), TeamID = teamID, Slot = slot, Vcpu = vcpu, RamMb = ramMb,
      DockerEndpoint = [], Pid = 0, CreatedAt = e_now env (tr @ [(TimeNow, None)]),
      TTL = i64 (ttlMinutes * time_Minute)\<rparr>"

lemma reserved_simps [simp]:
  "ID (reserved env teamID ttl vcpu ramMb slot tr) = newVMID (e_now env tr)"
  "Slot (reserved env teamID ttl vcpu ramMb slot tr) = slot"
  "Vcpu (reserved env teamID ttl vcpu ramMb slot tr) = vcpu"
  "RamMb (reserved env teamID ttl vcpu ramMb slot tr) = ramMb"
  "TeamID (reserved env teamID ttl vcpu ramMb slot tr) = teamID"
  by (simp_all add: reserved_def)

lemma createLocked_cases:
  "createLocked env teamID ttl vcpu ramMb m tr =
     (if admitted env m tr vcpu ramMb \<and> snd (freeSlot env m)
      then let vm = reserved env teamID ttl vcpu ramMb (fst (freeSlot env m)) tr
           in (Inr vm, m\<lparr>slots := mput (Slot vm) (ID vm) (slots m)\<rparr>, tr @ [(TimeNow, None), (TimeNow, None)])
      else (Inl ErrNoCapacity, m, tr))"
  by (auto simp: createLocked_def admitted_def reserved_def timeNow_def Let_def split: prod.splits bool.splits)

lemma releaseSlot_reserved:
  "mget (slots m) s = None \<Longrightarrow> releaseSlot s (m\<lparr>slots := mput s k (slots m)\<rparr>) = m"
  by (simp add: releaseSlot_def mdel_mput_fresh)

lemma freeSlot_free: "snd (freeSlot env m) \<Longrightarrow> mget (slots m) (fst (freeSlot env m)) = None"
  using freeSlotLoop_found [of "slots m" 0 "capacityCPU env"]
  by (cases "freeSlot env m") (auto simp: freeSlot_def)

lemma freeSlot_bounds:
  "snd (freeSlot env m) \<Longrightarrow> 0 \<le> fst (freeSlot env m) \<and> fst (freeSlot env m) < capacityCPU env"
  using freeSlotLoop_found [of "slots m" 0 "capacityCPU env"]
  by (cases "freeSlot env m") (auto simp: freeSlot_def)

lemma freeSlot_lowest: "snd (freeSlot env m) \<Longrightarrow> 0 \<le> s \<Longrightarrow> s < fst (freeSlot env m) \<Longrightarrow> mget (slots m) s \<noteq> None"
  using freeSlotLoop_found [of "slots m" 0 "capacityCPU env"]
  by (cases "freeSlot env m") (auto simp: freeSlot_def)

lemma freeSlot_exists:
  assumes "wf_mgr m" "quiescent m" "cpuSum m < capacityCPU env"
  shows "snd (freeSlot env m)"
proof (rule ccontr)
  assume "\<not> snd (freeSlot env m)"
  then obtain s where "freeSlot env m = (s, False)" by (metis prod.collapse)
  then have taken: "mget (slots m) j \<noteq> None" if "0 \<le> j" "j < capacityCPU env" for j
    using freeSlotLoop_none that by (simp add: freeSlot_def)
  define own where "own j = the (mget (slots m) j)" for j
  have own: "mget (slots m) j = Some (own j)" if "j \<in> {0..<capacityCPU env}" for j
    using taken [of j] that by (auto simp: own_def)
  have "inj_on own {0..<capacityCPU env}"
  proof (rule inj_onI)
    fix i j assume "i \<in> {0..<capacityCPU env}" "j \<in> {0..<capacityCPU env}" "own i = own j"
    then show "i = j" using own assms(2) unfolding quiescent_def by (metis option.inject)
  qed
  moreover have "own ` {0..<capacityCPU env} \<subseteq> dom (mget (vms m))"
    using own assms(2) unfolding quiescent_def by blast
  ultimately have "card {0..<capacityCPU env} \<le> card (dom (mget (vms m)))"
    by (metis card_inj_on_le gm.finite_dom [OF wf_mgrD(1) [OF assms(1)]])
  then have "capacityCPU env \<le> int (length (vms m))"
    using gm.length_entries [OF wf_mgrD(1) [OF assms(1)]] by simp
  with sum_pos(1) [OF assms(1)] assms(3) show False by simp
qed

section \<open>The operations, over any backend that keeps the contract\<close>

definition effTTL :: "Manager \<Rightarrow> int \<Rightarrow> int" where
  "effTTL m ttl = (if ttl \<le> 0 then DefaultTTLMinutes (m_cfg m) else ttl)"

definition withVM :: "VM \<Rightarrow> Manager \<Rightarrow> Manager" where
  "withVM vm m = m\<lparr>vms := mput (ID vm) vm (vms m), slots := mput (Slot vm) (ID vm) (slots m)\<rparr>"

context backend_contract
begin

lemma Create_error:
  assumes "Create env B teamID ttl vcpu ramMb m b tr = Some (Inl e, m', b', tr')"
  shows "m' = m"
  using assms freeSlot_free [of env m]
  by (auto simp: Create_def createLocked_cases Let_def releaseSlot_reserved reserved_def bind_eq_Some_conv
    split: if_splits prod.splits option.splits)

lemma Create_success:
  assumes "Create env B teamID ttl vcpu ramMb m b tr = Some (Inr vm, m', b', tr')"
  shows "0 < vcpu" "0 < ramMb" "admitted env m tr vcpu ramMb" "snd (freeSlot env m)"
    "\<exists>d p. vm = (reserved env teamID (effTTL m ttl) vcpu ramMb (fst (freeSlot env m)) tr)
        \<lparr>DockerEndpoint := d, Pid := p\<rparr> \<and> d \<noteq> []"
    "m' = withVM vm m"
proof -
  let ?vm0 = "reserved env teamID (effTTL m ttl) vcpu ramMb (fst (freeSlot env m)) tr"
  let ?m1 = "m\<lparr>slots := mput (Slot ?vm0) (ID ?vm0) (slots m)\<rparr>"
  show pos: "0 < vcpu" "0 < ramMb"
    using assms by (auto simp: Create_def Let_def split: if_splits)
  show adm: "admitted env m tr vcpu ramMb" "snd (freeSlot env m)"
    using assms by (auto simp: Create_def createLocked_cases Let_def split: if_splits)
  obtain nc rootfs tr1 tr2 where boot: "Boot B ?vm0 nc rootfs b tr1 = Some (None, vm, b', tr2)"
    and m': "m' = commitVM vm ?m1"
    using assms pos adm
    by (auto simp: Create_def createLocked_cases Let_def effTTL_def bind_eq_Some_conv
      split: if_splits prod.splits option.splits)
  from boot_fields [OF boot] boot_fills [OF boot]
  show vm: "\<exists>d p. vm = ?vm0\<lparr>DockerEndpoint := d, Pid := p\<rparr> \<and> d \<noteq> []" by blast
  from boot_keeps [OF boot] show "m' = withVM vm m"
    by (simp add: m' commitVM_def withVM_def)
qed

lemma Destroy_not_found:
  "mget (vms m) k = None \<Longrightarrow> Destroy env B k m b tr = (Some ErrNotFound, m, b, tr)"
  by (simp add: Destroy_def)

lemma Destroy_error: "Destroy env B k m b tr = (Some e, m', b', tr') \<Longrightarrow> m' = m"
  by (auto simp: Destroy_def split: option.splits prod.splits)

lemma Destroy_success:
  "Destroy env B k m b tr = (None, m', b', tr') \<Longrightarrow>
   \<exists>vm. mget (vms m) k = Some vm \<and> m' = destroyLocked k vm m"
  by (auto simp: Destroy_def split: option.splits prod.splits)

end

section \<open>Preservation of the invariant\<close>

lemma wf_withVM:
  assumes "wf_mgr m" "mget (vms m) (ID vm) = None" "mget (slots m) (Slot vm) = None"
    "0 < Vcpu vm" "0 < RamMb vm"
  shows "wf_mgr (withVM vm m)"
proof -
  have "Slot vm' \<noteq> Slot vm" if "mget (vms m) k = Some vm'" for k vm'
    using that wf_mgrD(4) [OF assms(1) that] assms(3) by auto
  with assms show ?thesis
    by (auto simp: wf_mgr_def withVM_def mget_mput)
qed

lemma quiescent_withVM:
  "quiescent m \<Longrightarrow> mget (vms m) (ID vm) = None \<Longrightarrow> quiescent (withVM vm m)"
  by (fastforce simp: quiescent_def withVM_def mget_mput)

lemma wf_destroyLocked:
  assumes "wf_mgr m" "mget (vms m) k = Some vm"
  shows "wf_mgr (destroyLocked k vm m)"
proof -
  have "Slot vm' \<noteq> Slot vm" if "mget (vms m) k' = Some vm'" "k' \<noteq> k" for k' vm'
    using wf_mgr_slots_inj [OF assms(1) that(1) assms(2)] that(2) by blast
  with wf_mgrD [OF assms(1)] show ?thesis
    by (simp add: wf_mgr_def destroyLocked_def mget_mdel)
qed

lemma quiescent_destroyLocked:
  assumes "wf_mgr m" "quiescent m" "mget (vms m) k = Some vm"
  shows "quiescent (destroyLocked k vm m)"
  unfolding quiescent_def
proof (intro allI impI)
  fix s k' assume "mget (slots (destroyLocked k vm m)) s = Some k'"
  then have s: "s \<noteq> Slot vm" "mget (slots m) s = Some k'"
    by (simp_all add: destroyLocked_def mget_mdel split: if_splits)
  with assms(2) obtain vm' where "mget (vms m) k' = Some vm'" "Slot vm' = s"
    unfolding quiescent_def by blast
  with s(1) assms(3) show "\<exists>vm'. mget (vms (destroyLocked k vm m)) k' = Some vm' \<and> Slot vm' = s"
    by (auto simp: destroyLocked_def mget_mdel)
qed

lemma sums_withVM:
  assumes "wf_mgr m" "mget (vms m) (ID vm) = None"
  shows "cpuSum (withVM vm m) = cpuSum m + Vcpu vm" "ramSum (withVM vm m) = ramSum m + RamMb vm"
  using gm.sum_insert_fresh [OF wf_mgrD(1) [OF assms(1)] assms(2)]
  by (simp_all add: cpuSum_def ramSum_def withVM_def)

lemma sums_destroyLocked:
  assumes "wf_mgr m" "mget (vms m) k = Some vm"
  shows "cpuSum (destroyLocked k vm m) = cpuSum m - Vcpu vm"
    "ramSum (destroyLocked k vm m) = ramSum m - RamMb vm"
  using gm.sum_delete [OF wf_mgrD(1) [OF assms(1)] assms(2)]
  by (simp_all add: cpuSum_def ramSum_def destroyLocked_def)

section \<open>Reaping, over any backend that keeps the contract\<close>

context backend_contract
begin

lemma reapLoop_spec:
  assumes "wf_mgr m" "reapLoop env B ids m b tr = (reaped, m', b', tr')"
  shows "wf_mgr m' \<and> (quiescent m \<longrightarrow> quiescent m') \<and> set reaped \<subseteq> set ids \<and> m_cfg m' = m_cfg m \<and>
    (\<forall>k. mget (vms m') k = (if k \<in> set reaped then None else mget (vms m) k))"
  using assms
proof (induction ids arbitrary: m b tr reaped)
  case (Cons k ids)
  obtain e m1 b1 tr1 where d: "Destroy env B k m b tr = (e, m1, b1, tr1)" by (metis prod_cases4)
  obtain r1 where rest: "reapLoop env B ids m1 b1 tr1 = (r1, m', b', tr')"
    and reaped: "reaped = (if e = None then k # r1 else r1)"
    using Cons.prems(2) by (auto simp: d split: option.splits prod.splits)
  show ?case
  proof (cases e)
    case (Some x)
    with d have "m1 = m" by (simp add: Destroy_error)
    with Some Cons.IH [OF _ rest] Cons.prems(1) reaped show ?thesis by auto
  next
    case None
    with d obtain vm where vm: "mget (vms m) k = Some vm" "m1 = destroyLocked k vm m"
      using Destroy_success by blast
    note IH = Cons.IH [OF wf_destroyLocked [OF Cons.prems(1) vm(1)] rest [unfolded vm(2)]]
    moreover have "mget (vms (destroyLocked k vm m)) j = (if j = k then None else mget (vms m) j)" for j
      by (simp add: destroyLocked_def mget_mdel)
    moreover have "m_cfg (destroyLocked k vm m) = m_cfg m" by (simp add: destroyLocked_def)
    ultimately show ?thesis
      using None reaped quiescent_destroyLocked [OF Cons.prems(1) _ vm(1)] by auto
  qed
qed simp

lemma reapLoop_all:
  assumes "\<And>vm b tr. fst (Stop B vm b tr) = None" "distinct ids" "set ids \<subseteq> dom (mget (vms m))"
    "reapLoop env B ids m b tr = (reaped, m', b', tr')"
  shows "reaped = ids"
  using assms(2-)
proof (induction ids arbitrary: m b tr reaped)
  case (Cons k ids)
  then obtain vm where vm: "mget (vms m) k = Some vm" by auto
  obtain b1 tr1 where "Stop B vm b tr = (None, b1, tr1)"
    using assms(1) by (metis prod.collapse)
  with vm have d: "Destroy env B k m b tr = (None, destroyLocked k vm m, b1, destroyCleanup env (m_cfg m) vm tr1)"
    by (simp add: Destroy_def)
  obtain r1 where rest: "reapLoop env B ids (destroyLocked k vm m) b1 (destroyCleanup env (m_cfg m) vm tr1) =
      (r1, m', b', tr')" and "reaped = k # r1"
    using Cons.prems(3) by (auto simp: d split: prod.splits)
  moreover have "set ids \<subseteq> dom (mget (vms (destroyLocked k vm m)))"
    using Cons.prems(1,2) by (auto simp: destroyLocked_def mget_mdel dom_def)
  ultimately show ?case using Cons.IH [OF _ _ rest] Cons.prems(1) by simp
qed simp

end

lemma expiredIDs_iff:
  assumes "wf_mgr m"
  shows "k \<in> set (expiredIDs now m) \<longleftrightarrow> (\<exists>vm. mget (vms m) k = Some vm \<and> ExpiresAt vm < now)"
  using gm.entries_iff [OF wf_mgrD(1) [OF assms]] by (force simp: expiredIDs_def)

lemma expiredIDs_distinct: "wf_mgr m \<Longrightarrow> distinct (expiredIDs now m)"
  using wf_mgrD(1) [of m] by (auto simp: expiredIDs_def wf_map_def distinct_map_filter)

end
