(* ===== verification/Firecracker_Props.thy ===== *)
theory Firecracker_Props
  imports Firecracker Manager_Props
begin

text \<open>
  Properties of the Firecracker backend: the readiness wait ends and makes a bounded number of
  attempts, \<open>Boot\<close> and \<open>Stop\<close> keep the backend contract, what a failed \<open>Boot\<close> leaves behind on
  the host at each of its stages, and \<open>Stop\<close> on every branch.
\<close>

section \<open>How the parts extend the trace\<close>

text \<open>Calls that touch neither a network device nor an iptables rule, and of these the ones that no
  metadata file is changed by.\<close>

fun offNetwork :: "call \<Rightarrow> bool" where
  "offNetwork (LinkAdd _) = False"
| "offNetwork (LinkDel _) = False"
| "offNetwork (Exec p _) = (p \<noteq> ''iptables'')"
| "offNetwork _ = True"

definition neutral :: "call \<Rightarrow> bool" where
  "neutral c \<longleftrightarrow> offNetwork c \<and> keepsMeta c"

declare neutral_def [simp]

lemma ruleEffect_off: "offNetwork c \<Longrightarrow> ruleEffect (c, e) M = M"
  by (cases c; cases e) auto

lemma tapEffect_off: "offNetwork c \<Longrightarrow> tapEffect (c, e) T = T"
  by (cases c; cases e) auto

lemma off_effects:
  assumes "extends offNetwork tr tr'"
  shows "rulesAfter M tr' = rulesAfter M tr" "tapsAfter T tr' = tapsAfter T tr"
proof -
  obtain ev where tr': "tr' = tr @ ev" and ev: "\<forall>c\<in>set ev. offNetwork (fst c)"
    using assms by (auto simp: extends_def)
  have "rulesAfter N ev = N" for N
    using ev by (induction ev arbitrary: N) (auto simp: ruleEffect_off)
  moreover have "tapsAfter U ev = U" for U
    using ev by (induction ev arbitrary: U) (auto simp: tapEffect_off)
  ultimately show "rulesAfter M tr' = rulesAfter M tr" "tapsAfter T tr' = tapsAfter T tr"
    by (simp_all add: tr')
qed

lemma neutral_off: "extends neutral tr tr' \<Longrightarrow> extends offNetwork tr tr'"
  by (erule extends_mono) simp

lemmas neutral_effects = off_effects [OF neutral_off]

abbreviation grows :: "trace \<Rightarrow> trace \<Rightarrow> bool" where
  "grows \<equiv> extends keepsMeta"

lemma neutral_grows: "extends neutral tr tr' \<Longrightarrow> grows tr tr'"
  by (erule extends_mono) simp

lemma performIgnore_extends: "P c \<Longrightarrow> extends P tr (performIgnore env c tr)"
  by (simp add: performIgnore_eq extends_one)

lemma setupTapDevice_grows: "grows tr (snd (setupTapDevice env nc tr))"
  by (auto simp: setupTapDevice_def perform_def Let_def performIgnore_eq extends_def split: option.splits)

lemma teardownTapDevice_grows: "grows tr (snd (teardownTapDevice env nc tr))"
  by (auto simp: teardownTapDevice_def perform_def Let_def extends_def split: option.splits)

lemma runCmd_grows: "grows tr (snd (runCmd env prog args tr))"
  by (simp add: runCmd_def perform_def Let_def extends_one)

lemma runSteps_grows: "grows tr (snd (runSteps env steps tr))"
proof (induction steps arbitrary: tr)
  case (Cons a steps)
  show ?case
    using extends_trans [OF extends_one Cons [of "tr @ [(iptCall a, None)]"]]
    by (auto simp: runCmd_def perform_def Let_def extends_one split: option.splits)
qed simp

lemma setupFirewall_grows: "grows tr (snd (setupFirewall env c nc tr))"
proof -
  have "grows tr (snd (runSteps env steps (tr @ [(Exec p a, e)])))" for p a e steps
    by (rule extends_trans [OF extends_one runSteps_grows]) simp
  then show ?thesis
    by (auto simp: setupFirewall_def runCmd_def perform_def Let_def extends_one split: option.splits)
qed

lemma teardownFirewall_grows: "grows tr (snd (teardownFirewall env c nc tr))"
proof (cases "teardownFirewall env c nc tr")
  case (Pair r tr')
  from runAllSteps_trace [OF Pair [unfolded teardownFirewall_def]] show ?thesis
    using Pair by (auto simp: extends_def dest!: set_zip_leftD)
qed

lemma setupBandwidthCap_neutral: "extends neutral tr (snd (setupBandwidthCap env nc mbit tr))"
  by (auto simp: setupBandwidthCap_def runCmd_def perform_def Let_def extends_def)

lemma bootConsole_neutral: "extends neutral tr (snd (bootConsole env c vm tr))"
  by (auto simp: bootConsole_def perform_def Let_def performIgnore_eq extends_def split: option.splits)

lemma enableControllers_neutral: "\<not> isMeta p \<Longrightarrow> extends neutral tr (snd (enableControllers env p ctrls tr))"
proof (induction ctrls arbitrary: tr)
  case (Cons x ctrls)
  show ?case
    using extends_trans [OF extends_one Cons.IH [OF Cons.prems, of "tr @ [(WriteFile p (Text x), None)]"]] Cons.prems
    by (auto simp: perform_def Let_def extends_one split: option.splits)
qed simp

lemma enableInDirs_neutral: "extends neutral tr (snd (enableInDirs env dirs tr))"
proof (induction dirs arbitrary: tr)
  case (Cons d dirs)
  let ?e = "enableControllers env (Join [d, ''cgroup.subtree_control'']) [''+cpu'', ''+memory''] tr"
  have "extends neutral tr (snd ?e)" by (intro enableControllers_neutral Join_not_meta) simp_all
  with extends_trans [OF this Cons [of "snd ?e"]] show ?case
    by (cases ?e) (auto split: option.splits simp del: enableControllers.simps neutral_def)
qed simp

lemma ensureParentControllers_neutral: "extends neutral tr (snd (ensureParentControllers env tr))"
proof -
  let ?tr = "tr @ [(Stat (Join [cgroupMount, ''cgroup.controllers'']), None), (MkdirAll cgroupRoot, None)]"
  have "extends neutral tr ?tr" by (simp add: extends_def)
  from extends_trans [OF this enableInDirs_neutral] show ?thesis
    by (auto simp: ensureParentControllers_def perform_def Let_def extends_def
      simp del: enableInDirs.simps split: option.splits)
qed

lemma writeLimits_neutral: "extends neutral tr (snd (writeLimits env path v r tr))"
  by (auto simp: writeLimits_def perform_def Let_def extends_def Join_not_meta split: option.splits)

lemma createCgroup_neutral: "extends neutral tr (snd (createCgroup env k v r tr))"
proof (cases "ensureParentControllers env tr")
  case (Pair e tr1)
  have 1: "extends neutral tr tr1" using ensureParentControllers_neutral [of tr env] Pair by simp
  let ?p = "Join [cgroupRoot, k]"
  have 2: "extends neutral tr (tr1 @ [(MkdirAll ?p, x)])" for x
    using 1 by (rule extends_snoc) simp
  have 3: "extends neutral tr (tr1 @ [(MkdirAll ?p, x), (ReadFile f, y)])" for x y f
    using extends_snoc [OF 2, of "ReadFile f" x y] by simp
  have 4: "extends neutral tr (snd (writeLimits env ?p v r (tr1 @ [(MkdirAll ?p, x), (ReadFile f, y)])))" for x y f
    by (rule extends_trans [OF 3 writeLimits_neutral])
  show ?thesis
    using 1 2 3 4 Pair
    by (auto simp: createCgroup_def perform_def readText_def Let_def simp del: missingController.simps
      split: option.splits sum.splits)
qed

lemma bootCgroup_neutral: "extends neutral tr (snd (bootCgroup env vm h tr))"
proof -
  have 1: "extends neutral tr (tr @ [(MachinePID h, e)])" for e by (rule extends_one) simp
  have 2: "extends neutral tr (snd (createCgroup env (ID vm) (Vcpu vm) (RamMb vm) (tr @ [(MachinePID h, e)])))" for e
    by (rule extends_trans [OF 1 createCgroup_neutral])
  have 3: "extends neutral tr' (snd (addProcessToCgroup env p pid tr'))" for p pid tr'
    by (simp add: addProcessToCgroup_def perform_def Let_def extends_one Join_not_meta)
  show ?thesis
    using 1 2 [of None] extends_trans [OF 2 [of None] 3]
    by (auto simp: bootCgroup_def Let_def split: prod.splits option.splits)
qed

lemma bootCgroup_pid: "bootCgroup env vm h tr = (pid, tr') \<Longrightarrow> pid = fst (e_pid env tr h)"
  by (auto simp: bootCgroup_def Let_def split: prod.splits option.splits)

section \<open>The readiness wait\<close>

lemma waitLoop_step:
  "waitLoop env addr to dl tr =
     (let e = e_err env tr (DialTimeout addr (500 * millisecond));
          tr1 = tr @ [(DialTimeout addr (500 * millisecond), e)];
          tr2 = tr1 @ [(TimeNow, None)];
          s = e_err env tr2 (SelectAfter (200 * millisecond));
          tr3 = tr2 @ [(SelectAfter (200 * millisecond), s)]
      in case e of
           None \<Rightarrow> Some (None, tr1 @ [(ConnClose, e_err env tr1 ConnClose)])
         | Some x \<Rightarrow>
             if dl < e_now env tr1 then
               Some (Some (Wrap (''guest docker daemon at '' @ addr @ '' not ready after '' @ Duration_String to) (Os x)), tr2)
             else (case s of Some _ \<Rightarrow> Some (Some CtxDone, tr3) | None \<Rightarrow> waitLoop env addr to dl tr3))"
  by (subst waitLoop.simps)
    (simp add: perform_def timeNow_def performIgnore_eq Let_def split: option.splits)

definition isDial :: "call \<times> oserr option \<Rightarrow> bool" where
  "isDial c \<longleftrightarrow> (case fst c of DialTimeout _ _ \<Rightarrow> True | _ \<Rightarrow> False)"

text \<open>
  If the deadline is less than \<open>n\<close> timer periods away, the loop returns after at most
  \<open>n + 1\<close> attempts.
\<close>

lemma waitLoop_returns:
  assumes "clock_ok env" "dl < e_now env tr + int n * (200 * millisecond)"
  shows "\<exists>r ev. waitLoop env addr to dl tr = Some (r, tr @ ev) \<and> length (filter isDial ev) \<le> n + 1"
  using assms(2)
proof (induction n arbitrary: tr)
  case 0
  have "dl < e_now env (tr @ [(DialTimeout addr (500 * millisecond), e)])" for e
    using 0 clock_mono [OF assms(1), of tr "[(DialTimeout addr (500 * millisecond), e)]"] by simp
  then show ?case
    by (subst waitLoop_step) (auto simp: Let_def isDial_def split: option.splits)
next
  case (Suc n)
  let ?dial = "DialTimeout addr (500 * millisecond)" and ?sel = "SelectAfter (200 * millisecond)"
  let ?e = "e_err env tr ?dial"
  let ?tr2 = "tr @ [(?dial, ?e), (TimeNow, None)]"
  let ?tr3 = "?tr2 @ [(?sel, None)]"
  have "e_now env tr \<le> e_now env ?tr2" by (rule clock_mono [OF assms(1)])
  moreover have "e_now env ?tr2 + 200 * millisecond \<le> e_now env ?tr3" by (rule clock_timer [OF assms(1)])
  ultimately have "dl < e_now env ?tr3 + int n * (200 * millisecond)"
    using Suc.prems by (simp add: algebra_simps)
  from Suc.IH [OF this] obtain r ev where
    "waitLoop env addr to dl ?tr3 = Some (r, ?tr3 @ ev)" "length (filter isDial ev) \<le> n + 1" by blast
  then show ?case
    by (subst waitLoop_step) (auto simp: Let_def isDial_def split: option.splits)
qed

lemma waitForDockerReady_bounded:
  assumes "clock_ok env"
  shows "\<exists>r ev. waitForDockerReady env ip (30000 * millisecond) tr = Some (r, tr @ ev) \<and>
    length (filter isDial ev) \<le> 152"
proof -
  let ?tr = "tr @ [(TimeNow, None)]"
  have "e_now env tr \<le> e_now env ?tr" by (rule clock_mono [OF assms])
  then have "e_now env tr + 30000 * millisecond < e_now env ?tr + int 151 * (200 * millisecond)" by simp
  from waitLoop_returns [OF assms this, of "JoinHostPort (IP_String ip) ''2375''" "30000 * millisecond"] obtain r ev where
    "waitLoop env (JoinHostPort (IP_String ip) ''2375'') (30000 * millisecond) (e_now env tr + 30000 * millisecond) ?tr =
      Some (r, ?tr @ ev)" "length (filter isDial ev) \<le> 151 + 1"
    by blast
  then show ?thesis
    by (auto simp: waitForDockerReady_def timeNow_def isDial_def)
qed

definition waitEvents :: "string \<Rightarrow> trace \<Rightarrow> error \<Rightarrow> trace \<Rightarrow> bool" where
  "waitEvents addr tr r tr' \<longleftrightarrow> extends neutral tr tr' \<and>
     (r = None \<longrightarrow> (\<exists>ev e. tr' = tr @ ev @ [(DialTimeout addr (500 * millisecond), None), (ConnClose, e)]))"

lemma waitEvents_extend:
  assumes "waitEvents addr tr1 r tr'" "extends neutral tr tr1"
  shows "waitEvents addr tr r tr'"
  using assms extends_trans [OF assms(2)] extends_D [OF assms(2)]
  by (auto simp: waitEvents_def)

lemma waitEvents_leaves [simp]:
  "waitEvents addr tr None (tr @ [(DialTimeout addr 500000000, None), (ConnClose, e)])"
  "waitEvents addr tr (Some x) (tr @ [(DialTimeout addr 500000000, d), (TimeNow, None)])"
  "waitEvents addr tr (Some x) (tr @ [(DialTimeout addr 500000000, d), (TimeNow, None), (SelectAfter 200000000, s)])"
  by (auto simp: waitEvents_def extends_def)

lemma waitLoop_trace:
  assumes "waitLoop env addr to dl tr = Some (r, tr')"
  shows "waitEvents addr tr r tr'"
proof -
  let ?P = "\<lambda>env addr (to::int) (dl::int) tr z. waitEvents addr tr (fst z) (snd z)"
  have "?P env addr to dl tr (r, tr')"
  proof (rule waitLoop.raw_induct [where P = ?P, OF _ assms], goal_cases)
    case (1 loop env addr to dl tr z)
    note IH = 1(1)
    from 1(2) show ?case
      by (auto simp: perform_def timeNow_def performIgnore_eq Let_def extends_def
        split: option.splits if_splits dest!: IH elim!: waitEvents_extend)
  qed
  then show ?thesis by simp
qed

lemma waitForDockerReady_trace:
  assumes "waitForDockerReady env ip timeout tr = Some (r, tr')"
  shows "waitEvents (JoinHostPort (IP_String ip) ''2375'') tr r tr'"
proof (rule waitEvents_extend)
  show "waitEvents (JoinHostPort (IP_String ip) ''2375'') (tr @ [(TimeNow, None)]) r tr'"
    using assms waitLoop_trace by (fastforce simp: waitForDockerReady_def timeNow_def)
  show "extends neutral tr (tr @ [(TimeNow, None)])" by (rule extends_one) simp
qed

section \<open>The backend contract\<close>

lemma bootNetwork_grows: "grows tr (snd (bootNetwork env c nc tr))"
proof -
  let ?s = "snd (setupTapDevice env nc tr)" and ?g = "\<lambda>t. snd (setupFirewall env c nc t)"
    and ?cap = "\<lambda>t. snd (setupBandwidthCap env nc (BandwidthCapMbit c) t)"
  have 1: "grows tr ?s" by (rule setupTapDevice_grows)
  have 2: "grows tr (?g ?s)" by (rule extends_trans [OF 1 setupFirewall_grows])
  have 3: "grows tr (?cap (?g ?s))" by (rule extends_trans [OF 2 neutral_grows [OF setupBandwidthCap_neutral]])
  have 4: "grows tr (snd (teardownTapDevice env nc (?g ?s)))"
    by (rule extends_trans [OF 2 teardownTapDevice_grows])
  have 5: "grows tr (snd (teardownTapDevice env nc (snd (teardownFirewall env c nc (?cap (?g ?s))))))"
    by (rule extends_trans [OF extends_trans [OF 3 teardownFirewall_grows] teardownTapDevice_grows])
  show ?thesis
    using 1 2 3 4 5 by (auto simp: bootNetwork_def split: prod.splits option.splits)
qed

lemma teardown_grows: "grows tr (snd (teardownTapDevice env nc (snd (teardownFirewall env c nc tr))))"
  by (rule extends_trans [OF teardownFirewall_grows teardownTapDevice_grows])

lemma abandonMachine_grows: "grows tr (abandonMachine env c nc h tr)"
  unfolding abandonMachine_def Let_def
  by (intro extends_trans [OF _ teardown_grows] extends_trans [OF _ performIgnore_extends]) simp_all

lemma abandonGuest_grows: "grows tr (abandonGuest env c nc h tr)"
  unfolding abandonGuest_def Let_def
  by (intro extends_trans [OF _ teardown_grows] extends_trans [OF _ performIgnore_extends]) simp_all

lemma bootMachine_grows: "grows tr (snd (bootMachine env c vm nc rootfs tr))"
proof -
  have 1: "grows tr (abandonMachine env c nc h (tr @ ev))" if "\<forall>c\<in>set ev. keepsMeta (fst c)" for h ev
    by (rule extends_trans [OF _ abandonMachine_grows]) (use that in \<open>simp add: extends_def\<close>)
  show ?thesis
    by (auto simp: bootMachine_def perform_def Let_def 1 performIgnore_eq split: option.splits)
      (auto simp: extends_def)
qed

lemma fcBoot_cases:
  assumes "fcBoot env c vm nc rootfs st tr = Some (err, vm', st', tr')"
  obtains (network) e where "bootNetwork env c nc tr = (Some e, tr')" "err = Some e" "vm' = vm" "st' = st"
  | (console) tr1 e where "bootNetwork env c nc tr = (None, tr1)" "bootConsole env c vm tr1 = (Some e, tr')"
      "err = Some e" "vm' = vm" "st' = st"
  | (machine) tr1 tr2 h e where "bootNetwork env c nc tr = (None, tr1)" "bootConsole env c vm tr1 = (None, tr2)"
      "bootMachine env c vm nc rootfs tr2 = ((Some e, h), tr')" "err = Some e" "vm' = vm" "st' = st"
  | (guest) tr1 tr2 tr3 h pid tr4 tr5 e where "bootNetwork env c nc tr = (None, tr1)"
      "bootConsole env c vm tr1 = (None, tr2)" "bootMachine env c vm nc rootfs tr2 = ((None, h), tr3)"
      "bootCgroup env vm h tr3 = (pid, tr4)"
      "waitForDockerReady env (GuestIP nc) (30000 * millisecond) tr4 = Some (Some e, tr5)"
      "err = Some (Wrap ''boot vm'' e)" "vm' = vm" "st' = st" "tr' = abandonGuest env c nc h tr5"
  | (ready) tr1 tr2 tr3 h pid tr4 where "bootNetwork env c nc tr = (None, tr1)"
      "bootConsole env c vm tr1 = (None, tr2)" "bootMachine env c vm nc rootfs tr2 = ((None, h), tr3)"
      "bootCgroup env vm h tr3 = (pid, tr4)"
      "waitForDockerReady env (GuestIP nc) (30000 * millisecond) tr4 = Some (None, tr')"
      "err = None" "vm' = vm\<lparr>Pid := pid, DockerEndpoint := dockerEndpoint c nc\<rparr>"
      "st' = st\<lparr>machines := mput (ID vm) h (machines st)\<rparr>"
  using assms unfolding fcBoot_def
  by (auto simp: bind_eq_Some_conv split: prod.splits option.splits)

lemma bootPrefix_grows:
  assumes "bootNetwork env c nc tr = (None, tr1)" "bootConsole env c vm tr1 = (None, tr2)"
    "bootMachine env c vm nc rootfs tr2 = (r, tr3)" "bootCgroup env vm h tr3 = (pid, tr4)"
  shows "grows tr tr1" "grows tr tr2" "grows tr tr3" "grows tr tr4"
proof -
  show 1: "grows tr tr1" using bootNetwork_grows [of tr env c nc] assms(1) by simp
  show 2: "grows tr tr2"
    using extends_trans [OF 1 neutral_grows [OF bootConsole_neutral [of tr1 env c vm]]] assms(2) by simp
  show 3: "grows tr tr3"
    using extends_trans [OF 2 bootMachine_grows [of tr2 env c vm nc rootfs]] assms(3) by simp
  show "grows tr tr4"
    using extends_trans [OF 3 neutral_grows [OF bootCgroup_neutral [of tr3 env vm h]]] assms(4) by simp
qed

lemma fcBoot_grows:
  assumes "fcBoot env c vm nc rootfs st tr = Some (err, vm', st', tr')"
  shows "grows tr tr'"
  using assms
proof (cases rule: fcBoot_cases)
  case network
  then show ?thesis using bootNetwork_grows [of tr env c nc] by simp
next
  case (console tr1)
  then show ?thesis
    using extends_trans [OF _ neutral_grows [OF bootConsole_neutral [of tr1 env c vm]]]
      bootNetwork_grows [of tr env c nc] by simp
next
  case machine
  then show ?thesis using bootPrefix_grows(3) prod.exhaust_sel by metis
next
  case (guest tr1 tr2 tr3 h pid tr4 tr5 e)
  from bootPrefix_grows(4) [OF guest(1-4)] waitForDockerReady_trace [OF guest(5)] show ?thesis
    unfolding guest(9) waitEvents_def
    by (blast intro: extends_trans neutral_grows abandonGuest_grows)
next
  case (ready tr1 tr2 tr3 h pid tr4)
  from bootPrefix_grows(4) [OF ready(1-4)] waitForDockerReady_trace [OF ready(5)] show ?thesis
    unfolding waitEvents_def by (blast intro: extends_trans neutral_grows)
qed

lemma fcStop_grows: "fcStop env vm st tr = (err, st', tr') \<Longrightarrow> grows tr tr'"
  by (auto simp: fcStop_def perform_def performIgnore_eq Let_def extends_def
    split: option.splits if_splits)

interpretation fc: backend_contract "fcBackend env c" for env c
proof
  fix vm nc rootfs b tr err vm' b' tr'
  assume "Boot (fcBackend env c) vm nc rootfs b tr = Some (err, vm', b', tr')"
  then have boot: "fcBoot env c vm nc rootfs b tr = Some (err, vm', b', tr')"
    by (simp add: fcBackend_def)
  show "vm' = vm\<lparr>DockerEndpoint := DockerEndpoint vm', Pid := Pid vm'\<rparr>"
    using boot by (cases rule: fcBoot_cases) simp_all
  show "\<exists>ev. tr' = tr @ ev"
    using fcBoot_grows [OF boot] by (rule extends_D)
next
  fix vm nc rootfs b tr vm' b' tr'
  assume "Boot (fcBackend env c) vm nc rootfs b tr = Some (None, vm', b', tr')"
  then have "fcBoot env c vm nc rootfs b tr = Some (None, vm', b', tr')" by (simp add: fcBackend_def)
  then show "DockerEndpoint vm' \<noteq> []"
    by (cases rule: fcBoot_cases) (simp_all add: dockerEndpoint_def)
next
  fix vm b tr err b' tr'
  assume "Stop (fcBackend env c) vm b tr = (err, b', tr')"
  then show "\<exists>ev. tr' = tr @ ev"
    using extends_D [OF fcStop_grows] by (simp add: fcBackend_def)
qed

section \<open>What Boot leaves on the host\<close>

fun stage :: "gerr \<Rightarrow> string" where
  "stage (Wrap s _) = s"
| "stage _ = []"

lemma teardown_effect:
  assumes "net_ok env M T"
  shows "rulesAfter M (snd (teardownTapDevice env nc (snd (teardownFirewall env c nc tr)))) =
      rulesAfter M tr - vmRules c nc"
    "tapsAfter T (snd (teardownTapDevice env nc (snd (teardownFirewall env c nc tr)))) =
      tapsAfter T tr - {TapName nc}"
  by (simp_all add: teardownTapDevice_effect [OF assms] teardownFirewall_removes_lemma [OF assms]
    teardownFirewall_taps)

lemma setupTapDevice_fresh:
  assumes "net_ok env M T" "setupTapDevice env nc tr = (None, tr')"
  shows "TapName nc \<notin> tapsAfter T tr"
proof -
  have "e_err env tr (LinkAdd (TapName nc)) = None"
    using assms(2) by (auto simp: setupTapDevice_def perform_def Let_def split: option.splits)
  with assms(1) show ?thesis by (simp add: net_ok_def)
qed

lemma bootNetwork_ok:
  assumes "net_ok env M T" "bootNetwork env c nc tr = (None, tr')"
  shows "rulesAfter M tr' = rulesAfter M tr + vmRules c nc"
    "tapsAfter T tr' = insert (TapName nc) (tapsAfter T tr)" "TapName nc \<notin> tapsAfter T tr"
proof -
  obtain tr1 tr2 where tap: "setupTapDevice env nc tr = (None, tr1)"
    and fw: "setupFirewall env c nc tr1 = (None, tr2)"
    and cap: "setupBandwidthCap env nc (BandwidthCapMbit c) tr2 = (None, tr')"
    using assms(2) by (auto simp: bootNetwork_def split: prod.splits option.splits)
  have "extends neutral tr2 tr'" using setupBandwidthCap_neutral [of tr2 env nc] cap by (metis snd_conv)
  from neutral_effects [OF this] setupFirewall_ok [OF fw] setupTapDevice_ok [OF tap]
  show "rulesAfter M tr' = rulesAfter M tr + vmRules c nc"
    "tapsAfter T tr' = insert (TapName nc) (tapsAfter T tr)"
    by simp_all
  show "TapName nc \<notin> tapsAfter T tr" by (rule setupTapDevice_fresh [OF assms(1) tap])
qed

text \<open>What a failed stage has left, by the stage named in its error.\<close>

definition leftBehind :: "Config \<Rightarrow> NetConfig \<Rightarrow> rule multiset \<Rightarrow> string set \<Rightarrow> gerr \<Rightarrow> rule multiset \<Rightarrow> string set \<Rightarrow> bool" where
  "leftBehind c nc M T e M' T' \<longleftrightarrow>
     (if stage e = ''firewall setup'' then
        T' = T \<and> (\<exists>k<length (setupFirewallSteps c nc).
          M' = M + mset (map (snd \<circ> iptSplit) (take k (setupFirewallSteps c nc))))
      else if stage e \<in> {''create vm state dir'', ''open pty for console'', ''open console log''} then
        T' = insert (TapName nc) T \<and> TapName nc \<notin> T \<and> M' = M + vmRules c nc
      else T' = T \<and> M' = M)"

lemma bootNetwork_err:
  assumes "net_ok env M T" "bootNetwork env c nc tr = (Some e, tr')"
  shows "leftBehind c nc (rulesAfter M tr) (tapsAfter T tr) e (rulesAfter M tr') (tapsAfter T tr')"
    "stage e \<in> {''tap setup'', ''firewall setup'', ''bandwidth cap''}"
proof -
  consider (tap) err where "setupTapDevice env nc tr = (Some err, tr')" "e = Wrap ''tap setup'' err"
    | (fw) tr1 tr2 err where "setupTapDevice env nc tr = (None, tr1)"
        "setupFirewall env c nc tr1 = (Some err, tr2)" "e = Wrap ''firewall setup'' err"
        "tr' = snd (teardownTapDevice env nc tr2)"
    | (cap) tr1 tr2 tr3 err where "setupTapDevice env nc tr = (None, tr1)"
        "setupFirewall env c nc tr1 = (None, tr2)"
        "setupBandwidthCap env nc (BandwidthCapMbit c) tr2 = (Some err, tr3)"
        "e = Wrap ''bandwidth cap'' err"
        "tr' = snd (teardownTapDevice env nc (snd (teardownFirewall env c nc tr3)))"
    using assms(2) by (auto simp: bootNetwork_def split: prod.splits option.splits)
  then have "leftBehind c nc (rulesAfter M tr) (tapsAfter T tr) e (rulesAfter M tr') (tapsAfter T tr') \<and>
    stage e \<in> {''tap setup'', ''firewall setup'', ''bandwidth cap''}"
  proof cases
    case tap
    with setupTapDevice_failure_effect [OF assms(1)] show ?thesis by (auto simp: leftBehind_def)
  next
    case fw
    from setupFirewall_err [OF fw(2)] setupTapDevice_ok [OF fw(1)] setupTapDevice_fresh [OF assms(1) fw(1)]
      setupFirewall_taps [of T env c nc tr1]
    show ?thesis by (auto simp: leftBehind_def fw teardownTapDevice_effect [OF assms(1)])
  next
    case cap
    have "extends neutral tr2 tr3" using setupBandwidthCap_neutral [of tr2 env nc] cap(3) by (metis snd_conv)
    from neutral_effects [OF this] setupFirewall_ok [OF cap(2)] setupTapDevice_ok [OF cap(1)]
      setupTapDevice_fresh [OF assms(1) cap(1)]
    show ?thesis by (simp add: leftBehind_def cap(4,5) teardown_effect [OF assms(1)])
  qed
  then show "leftBehind c nc (rulesAfter M tr) (tapsAfter T tr) e (rulesAfter M tr') (tapsAfter T tr')"
    "stage e \<in> {''tap setup'', ''firewall setup'', ''bandwidth cap''}" by blast+
qed

lemma bootConsole_err:
  "bootConsole env c vm tr = (Some e, tr') \<Longrightarrow>
   stage e \<in> {''create vm state dir'', ''open pty for console'', ''open console log''}"
  by (auto simp: bootConsole_def split: prod.splits option.splits)

lemma abandonMachine_effect:
  assumes "net_ok env M T"
  shows "rulesAfter M (abandonMachine env c nc h tr) = rulesAfter M tr - vmRules c nc"
    "tapsAfter T (abandonMachine env c nc h tr) = tapsAfter T tr - {TapName nc}"
  by (simp_all add: abandonMachine_def Let_def teardown_effect [OF assms] performIgnore_eq
    ruleEffect_off tapEffect_off)

lemma abandonGuest_effect:
  assumes "net_ok env M T"
  shows "rulesAfter M (abandonGuest env c nc h tr) = rulesAfter M tr - vmRules c nc"
    "tapsAfter T (abandonGuest env c nc h tr) = tapsAfter T tr - {TapName nc}"
  by (simp_all add: abandonGuest_def Let_def teardown_effect [OF assms] performIgnore_eq
    ruleEffect_off tapEffect_off)

lemma bootMachine_ok:
  assumes "bootMachine env c vm nc rootfs tr = ((None, h), tr')"
  shows "extends neutral tr tr'" "h = length tr"
    "\<exists>e. tr' = tr @ [(NewMachine (fcCfg c vm nc rootfs), None), (MachineStart h, None), (TtyClose, e)]"
  using assms
  by (auto simp: bootMachine_def perform_def Let_def performIgnore_eq extends_def
    split: option.splits)

lemma bootMachine_err:
  assumes "net_ok env M T" "bootMachine env c vm nc rootfs tr = ((Some e, h), tr')"
  shows "rulesAfter M tr' = rulesAfter M tr - vmRules c nc"
    "tapsAfter T tr' = tapsAfter T tr - {TapName nc}"
    "stage e \<in> {''configure machine'', ''start machine''}"
  using assms(2)
  by (auto simp: bootMachine_def perform_def Let_def abandonMachine_effect [OF assms(1)]
    ruleEffect_off tapEffect_off split: option.splits)

lemma fcBoot_failure:
  assumes "net_ok env M T" "fcBoot env c vm nc rootfs st tr = Some (Some e, vm', st', tr')"
  shows "leftBehind c nc (rulesAfter M tr) (tapsAfter T tr) e (rulesAfter M tr') (tapsAfter T tr')"
  using assms(2)
proof (cases rule: fcBoot_cases)
  case network
  with bootNetwork_err(1) [OF assms(1)] show ?thesis by simp
next
  case (console tr1 e1)
  have "extends neutral tr1 tr'"
    using bootConsole_neutral [of tr1 env c vm] console(2) by simp
  from neutral_effects [OF this] bootNetwork_ok [OF assms(1) console(1)] bootConsole_err [OF console(2)]
  show ?thesis using console(3) by (auto simp: leftBehind_def)
next
  case (machine tr1 tr2 h e1)
  have "extends neutral tr1 tr2"
    using bootConsole_neutral [of tr1 env c vm] machine(2) by simp
  from neutral_effects [OF this] bootNetwork_ok [OF assms(1) machine(1)] bootMachine_err [OF assms(1) machine(3)]
  show ?thesis using machine(4) by (auto simp: leftBehind_def)
next
  case (guest tr1 tr2 tr3 h pid tr4 tr5 e1)
  have "extends neutral tr1 tr2" "extends neutral tr3 tr4"
    using bootConsole_neutral [of tr1 env c vm] guest(2) bootCgroup_neutral [of tr3 env vm h] guest(4) by simp_all
  moreover have "extends neutral tr4 tr5"
    using waitForDockerReady_trace [OF guest(5)] by (simp add: waitEvents_def)
  ultimately have "extends neutral tr1 tr5"
    using bootMachine_ok(1) [OF guest(3)] by (blast intro: extends_trans)
  from neutral_effects [OF this] bootNetwork_ok [OF assms(1) guest(1)] abandonGuest_effect [OF assms(1)]
  show ?thesis using guest(6,9) by (auto simp: leftBehind_def)
next
  case ready
  then show ?thesis by simp
qed

lemma fcBoot_success:
  assumes "net_ok env M T" "fcBoot env c vm nc rootfs st tr = Some (None, vm', st', tr')"
  shows "rulesAfter M tr' = rulesAfter M tr + vmRules c nc"
    "tapsAfter T tr' = insert (TapName nc) (tapsAfter T tr)" "TapName nc \<notin> tapsAfter T tr"
proof -
  obtain tr1 tr2 tr3 h pid tr4 where ready: "bootNetwork env c nc tr = (None, tr1)"
      "bootConsole env c vm tr1 = (None, tr2)" "bootMachine env c vm nc rootfs tr2 = ((None, h), tr3)"
      "bootCgroup env vm h tr3 = (pid, tr4)"
      "waitForDockerReady env (GuestIP nc) (30000 * millisecond) tr4 = Some (None, tr')"
    using assms(2) by (cases rule: fcBoot_cases) auto
  have "extends neutral tr1 tr2" "extends neutral tr3 tr4"
    using bootConsole_neutral [of tr1 env c vm] ready(2) bootCgroup_neutral [of tr3 env vm h] ready(4) by simp_all
  moreover have "extends neutral tr4 tr'"
    using waitForDockerReady_trace [OF ready(5)] by (simp add: waitEvents_def)
  ultimately have "extends neutral tr1 tr'"
    using bootMachine_ok(1) [OF ready(3)] by (blast intro: extends_trans)
  from neutral_effects [OF this] bootNetwork_ok [OF assms(1) ready(1)]
  show "rulesAfter M tr' = rulesAfter M tr + vmRules c nc"
    "tapsAfter T tr' = insert (TapName nc) (tapsAfter T tr)" "TapName nc \<notin> tapsAfter T tr"
    by simp_all
qed

section \<open>Examples\<close>

text \<open>A guest that never answers, under a clock that advances by each timer.\<close>

fun tick :: "call \<times> oserr option \<Rightarrow> int" where
  "tick (SelectAfter d, _) = max 1 d"
| "tick _ = 1"

definition dead_guest :: env where
  "dead_guest = calm\<lparr>e_now := \<lambda>tr. \<Sum>c\<leftarrow>tr. tick c,
     e_err := \<lambda>_ c. case c of DialTimeout _ _ \<Rightarrow> Some (OsErr ''connection refused'') | _ \<Rightarrow> None\<rparr>"

lemma dead_guest_clock: "clock_ok dead_guest"
proof -
  have "0 \<le> tick c" for c by (cases c rule: tick.cases) auto
  then show ?thesis by (auto simp: clock_ok_def dead_guest_def)
qed

text \<open>A kernel that refuses nothing the network set-up needs brings the network up.\<close>

lemma kernel_runSteps:
  assumes "\<And>p a. \<not> refuse (Exec p a)" "list_all (\<lambda>a. fst (iptSplit a) = ''-A'') steps"
  shows "fst (runSteps (kernel refuse) steps tr) = None"
  using assms(2)
  by (induction steps arbitrary: tr)
    (auto simp: runCmd_def perform_def Let_def kernel_def assms(1))

lemma kernel_bootNetwork:
  assumes "\<And>p a. \<not> refuse (Exec p a)" "\<And>n. \<not> refuse (LinkAdd n)" "\<And>n. \<not> refuse (LinkSetUp n)"
    "\<And>n a b. \<not> refuse (AddrAdd n a b)" "TapName nc \<notin> tapsAfter {} tr"
  obtains tr' where "bootNetwork (kernel refuse) c nc tr = (None, tr')"
proof -
  let ?k = "kernel refuse"
  have "fst (setupTapDevice ?k nc tr) = None"
    using assms(2-5) by (simp add: setupTapDevice_def perform_def Let_def kernel_def)
  moreover have "fst (setupFirewall ?k c nc t) = None" for t
  proof -
    have "e_err ?k t (Exec ''sysctl'' a) = None" for a by (simp add: kernel_def assms(1))
    with kernel_runSteps [where refuse = refuse, OF assms(1) setup_steps_append [of c nc]] show ?thesis
      by (simp add: setupFirewall_def runCmd_def perform_def Let_def)
  qed
  moreover have "fst (setupBandwidthCap ?k nc n t) = None" for n t
    by (simp add: setupBandwidthCap_def runCmd_def perform_def Let_def kernel_def assms(1))
  ultimately have "fst (bootNetwork ?k c nc tr) = None"
    by (auto simp: bootNetwork_def split: prod.splits option.splits) (metis fst_conv option.distinct(1))+
  then show ?thesis using that by (metis prod.collapse)
qed

lemma kernel_simple_calls [simp]:
  "e_err (kernel refuse) tr (MkdirAll d) = (if refuse (MkdirAll d) then Some (OsErr ''refused'') else None)"
  "e_err (kernel refuse) tr PtyOpen = (if refuse PtyOpen then Some (OsErr ''refused'') else None)"
  "e_err (kernel refuse) tr (OpenFile p) = (if refuse (OpenFile p) then Some (OsErr ''refused'') else None)"
  "e_err (kernel refuse) tr (NewMachine f) = (if refuse (NewMachine f) then Some (OsErr ''refused'') else None)"
  "e_err (kernel refuse) tr (MachineStart h) = (if refuse (MachineStart h) then Some (OsErr ''refused'') else None)"
  "e_err (kernel refuse) tr (DialTimeout a t) = (if refuse (DialTimeout a t) then Some (OsErr ''refused'') else None)"
  "e_err (kernel refuse) tr (StopVMM h) = (if refuse (StopVMM h) then Some (OsErr ''refused'') else None)"
  by (simp_all add: kernel_def)

lemma kernel_boots:
  assumes "TapName nc \<notin> tapsAfter {} tr"
  obtains vm' st' tr' where
    "fcBoot (kernel (\<lambda>_. False)) c vm nc rootfs st tr = Some (None, vm', st', tr')"
proof -
  let ?k = "kernel (\<lambda>_. False)"
  obtain t where net: "bootNetwork ?k c nc tr = (None, t)"
    using kernel_bootNetwork [of "\<lambda>_. False" nc tr c] assms by auto
  obtain t2 where console: "bootConsole ?k c vm t = (None, t2)"
    by (simp add: bootConsole_def perform_def Let_def)
  obtain h t3 where machine: "bootMachine ?k c vm nc rootfs t2 = ((None, h), t3)"
    by (simp add: bootMachine_def perform_def Let_def)
  obtain pid t4 where cgroup: "bootCgroup ?k vm h t3 = (pid, t4)" by (metis surj_pair)
  obtain t5 where wait: "waitForDockerReady ?k (GuestIP nc) (30000 * millisecond) t4 = Some (None, t5)"
    by (simp add: waitForDockerReady_def timeNow_def waitLoop_step Let_def)
  show ?thesis
    by (rule that) (simp add: fcBoot_def net console machine cgroup wait [simplified])
qed

section \<open>Properties\<close>

text \<open>
  C25. The readiness wait of \<open>Boot\<close> always returns, whatever the guest does, as long as the
  clock moves on and timers wait for their time; in its 30 seconds it dials at most 152 times.
\<close>

theorem waitForDockerReady_returns:
  assumes "clock_ok env"
  shows "\<exists>r ev. waitForDockerReady env ip (30000 * millisecond) tr = Some (r, tr @ ev) \<and>
    length (filter isDial ev) \<le> 152"
  by (rule waitForDockerReady_bounded [OF assms])

theorem waitForDockerReady_returns_witness:
  "\<exists>r ev. waitForDockerReady dead_guest (IPv4 172 16 0 2) (30000 * millisecond) [] = Some (r, ev) \<and>
    length (filter isDial ev) \<le> 152"
  using waitForDockerReady_returns [OF dead_guest_clock, of "IPv4 172 16 0 2" "[]"] by simp



text \<open>
  A \<open>Boot\<close> that fails between the network and the machine (the state directory, the pty, the
  console log) returns without undoing the network: the tap device and every one of the VM's
  seven firewall rules stay on the host.
\<close>

theorem Boot_console_failure_leaks:
  assumes "net_ok env M T" "fcBoot env c vm nc rootfs st tr = Some (Some e, vm', st', tr')"
    "stage e \<in> {''create vm state dir'', ''open pty for console'', ''open console log''}"
  shows "TapName nc \<notin> tapsAfter T tr \<and> tapsAfter T tr' = insert (TapName nc) (tapsAfter T tr) \<and>
    rulesAfter M tr' = rulesAfter M tr + vmRules c nc \<and> size (vmRules c nc) = 7"
  using fcBoot_failure [OF assms(1,2)] assms(3)
  by (auto simp: leftBehind_def vmRules_def setupFirewallSteps_def Let_def)

theorem Boot_console_failure_leaks_witness:
  "\<exists>e vm' st' tr'.
     fcBoot (kernel (\<lambda>c. c = PtyOpen)) example_cfg example_vm example_nc ''rootfs''
       NewFirecrackerBackend [] = Some (Some e, vm', st', tr') \<and>
     tapsAfter {} tr' = {''fc-tap-0''} \<and> rulesAfter {#} tr' = vmRules example_cfg example_nc"
proof -
  let ?r = "\<lambda>c. c = PtyOpen"
  obtain t where net: "bootNetwork (kernel ?r) example_cfg example_nc [] = (None, t)"
    using kernel_bootNetwork [of ?r example_nc "[]" example_cfg] by auto
  obtain e vm' st' tr' where run: "fcBoot (kernel ?r) example_cfg example_vm example_nc ''rootfs''
      NewFirecrackerBackend [] = Some (Some e, vm', st', tr')" and st: "stage e = ''open pty for console''"
    by (auto simp: fcBoot_def net bootConsole_def perform_def Let_def)
  have "TapName example_nc = ''fc-tap-0''" by (simp add: Itoa_def nat_digits.simps)
  with Boot_console_failure_leaks [OF kernel_net_ok run] run st show ?thesis by auto
qed

text \<open>
  C22. A \<open>Boot\<close> that succeeds has put the VM's tap device and rules on the host, has started one
  new machine and keeps its handle under the VM's id, returns the VM with the process id that was reported for this machine
  after its start and the endpoint \<open>host:port\<close> of its slot, and returns right after a connection
  to the guest's Docker port was accepted.
\<close>

theorem Boot_success_ready:
  assumes "net_ok env M T" "fcBoot env c vm nc rootfs st tr = Some (None, vm', st', tr')"
  shows "tapsAfter T tr' = insert (TapName nc) (tapsAfter T tr) \<and>
    rulesAfter M tr' = rulesAfter M tr + vmRules c nc \<and>
    vm' = vm\<lparr>Pid := Pid vm', DockerEndpoint := hostPublicIP c @ '':'' @ Itoa (DockerPort nc)\<rparr> \<and>
    (\<exists>ev h e. tr' = tr @ ev @
        [(DialTimeout (JoinHostPort (IP_String (GuestIP nc)) ''2375'') (500 * millisecond), None), (ConnClose, e)] \<and>
      (NewMachine (fcCfg c vm nc rootfs), None) \<in> set ev \<and> (MachineStart h, None) \<in> set ev \<and>
      machines st' = mput (ID vm) h (machines st) \<and>
      (\<exists>ev1 ev2. ev = ev1 @ ev2 \<and> (MachineStart h, None) \<in> set ev1 \<and> Pid vm' = fst (e_pid env (tr @ ev1) h)))"
proof -
  obtain tr1 tr2 tr3 h pid tr4 where ready: "bootNetwork env c nc tr = (None, tr1)"
      "bootConsole env c vm tr1 = (None, tr2)" "bootMachine env c vm nc rootfs tr2 = ((None, h), tr3)"
      "bootCgroup env vm h tr3 = (pid, tr4)"
      "waitForDockerReady env (GuestIP nc) (30000 * millisecond) tr4 = Some (None, tr')"
      "vm' = vm\<lparr>Pid := pid, DockerEndpoint := dockerEndpoint c nc\<rparr>"
      "st' = st\<lparr>machines := mput (ID vm) h (machines st)\<rparr>"
    using assms(2) by (cases rule: fcBoot_cases) auto
  obtain ev2 where 2: "tr2 = tr @ ev2"
    using bootPrefix_grows(2) [OF ready(1-4)] by (auto dest: extends_D)
  obtain e where 3: "tr3 = tr2 @ [(NewMachine (fcCfg c vm nc rootfs), None), (MachineStart h, None), (TtyClose, e)]"
    using bootMachine_ok(3) [OF ready(3)] by blast
  obtain ev4 where 4: "tr4 = tr3 @ ev4"
    using bootCgroup_neutral [of tr3 env vm h] ready(4) extends_D by fastforce
  obtain ev5 e' where 5: "tr' = tr4 @ ev5 @
      [(DialTimeout (JoinHostPort (IP_String (GuestIP nc)) ''2375'') (500 * millisecond), None), (ConnClose, e')]"
    using waitForDockerReady_trace [OF ready(5)] by (auto simp: waitEvents_def)
  have pid: "Pid vm' = fst (e_pid env tr3 h)" using bootCgroup_pid [OF ready(4)] ready(6) by simp
  have tr3: "tr3 = tr @ drop (length tr) tr3" by (simp add: 2 3)
  from fcBoot_success [OF assms] ready(6,7) pid show ?thesis
    by (intro conjI exI [of _ "drop (length tr) tr3 @ ev4 @ ev5"] exI [of _ h] exI [of _ e']
        exI [of _ "drop (length tr) tr3"] exI [of _ "ev4 @ ev5"])
      (simp_all add: dockerEndpoint_def 2 3 4 5)
qed

theorem Boot_success_ready_witness:
  "\<exists>vm' st' tr'. fcBoot (kernel (\<lambda>_. False)) example_cfg example_vm example_nc ''rootfs''
       NewFirecrackerBackend [] = Some (None, vm', st', tr') \<and>
     DockerEndpoint vm' = ''10.10.0.2:10000'' \<and> tapsAfter {} tr' = {''fc-tap-0''} \<and>
     (\<exists>h. machines st' = [(''vm_1'', h)])"
proof -
  obtain vm' st' tr' where run: "fcBoot (kernel (\<lambda>_. False)) example_cfg example_vm example_nc ''rootfs''
      NewFirecrackerBackend [] = Some (None, vm', st', tr')"
    using kernel_boots [of example_nc "[]" example_cfg example_vm "''rootfs''" NewFirecrackerBackend] by auto
  note spec = Boot_success_ready [OF kernel_net_ok run]
  have "TapName example_nc = ''fc-tap-0''" by (simp add: Itoa_def nat_digits.simps)
  moreover have "hostPublicIP example_cfg = ''10.10.0.2''"
    using SplitHostPort_plain [of "''10.10.0.2''" "''7777''"] by (simp add: hostPublicIP_def example_cfg_def)
  moreover have "Itoa (DockerPort example_nc) = ''10000''"
    by (simp add: example_cfg_def i64_def Itoa_def nat_digits.simps)
  moreover have "\<exists>h. machines st' = [(''vm_1'', h)]"
    using spec by (auto simp: NewFirecrackerBackend_def example_vm_def)
  moreover have "DockerEndpoint vm' = hostPublicIP example_cfg @ '':'' @ Itoa (DockerPort example_nc)"
    using spec by (metis VM.select_convs(6) VM.surjective VM.update_convs(6))
  ultimately show ?thesis using spec run by auto
qed

end
