(* ===== verification/Lifecycle.thy ===== *)
theory Lifecycle
  imports Firecracker_Props
begin

text \<open>
  The manager on top of the Firecracker backend: what \<open>Create\<close>, \<open>Destroy\<close>, \<open>ReapExpired\<close> and
  a restart of the agent guarantee for the VM table, the slots, the budgets and the host's
  network, one operation after the other. The general lemmas come from the backend contract
  (\<open>fc\<close>).
\<close>

section \<open>Admission without wrap-around\<close>

text \<open>The additions of the admission check stay within an \<open>int64\<close>.\<close>

definition no_wrap :: "Manager \<Rightarrow> int \<Rightarrow> int \<Rightarrow> bool" where
  "no_wrap m vcpu ramMb \<longleftrightarrow> cpuSum m + vcpu < 2 ^ 63 \<and> ramSum m + ramMb < 2 ^ 63"

lemma sums_nonneg: "wf_mgr m \<Longrightarrow> 0 \<le> cpuSum m" "wf_mgr m \<Longrightarrow> 0 \<le> ramSum m"
  using sum_pos [of m] by linarith+

lemma admitted_iff:
  assumes "wf_mgr m" "no_wrap m vcpu ramMb" "0 < vcpu" "0 < ramMb"
  shows "admitted env m tr vcpu ramMb \<longleftrightarrow>
    cpuSum m + vcpu \<le> capacityCPU env \<and> ramSum m + ramMb \<le> capacityRAMMb env m tr"
  using assms sums_nonneg [OF assms(1)]
  by (simp add: admitted_def usedCPULocked_eq usedRAMMbLocked_eq no_wrap_def i64_add_left i64_nonneg_less)

section \<open>Create\<close>

text \<open>
  C6. A \<open>Create\<close> that fails, for whichever reason (bad sizes, no capacity, the rootfs copy, any
  stage of the boot), leaves the manager exactly as it was: no VM is recorded and the reserved
  slot is given back.
\<close>

theorem Create_error_unchanged:
  assumes "Create env (fcBackend env c) teamID ttl vcpu ramMb m st tr = Some (Inl e, m', st', tr')"
  shows "m' = m"
  using assms by (rule fc.Create_error)

theorem Create_error_unchanged_witness:
  "\<exists>e st' tr'. Create calm (fcBackend calm example_cfg) ''team'' 60 5 512 (emptyManager example_cfg)
     NewFirecrackerBackend [] = Some (Inl e, emptyManager example_cfg, st', tr')"
proof -
  have "\<exists>e m' st' tr'. Create calm (fcBackend calm example_cfg) ''team'' 60 5 512 (emptyManager example_cfg)
      NewFirecrackerBackend [] = Some (Inl e, m', st', tr')"
    by (simp add: Create_def createLocked_def usedCPULocked_def capacityCPU_def detectCPUTotal_def
      emptyManager_def calm_def i64_def)
  then obtain e m' st' tr' where run: "Create calm (fcBackend calm example_cfg) ''team'' 60 5 512
      (emptyManager example_cfg) NewFirecrackerBackend [] = Some (Inl e, m', st', tr')" by blast
  from Create_error_unchanged [OF run] run show ?thesis by blast
qed

text \<open>
  What a successful \<open>Create\<close> does to a manager whose invariant holds: the new VM has the asked-for
  size, the lowest free slot and an endpoint, it is the only change, the invariant still holds and
  the budgets are not exceeded.
\<close>

lemma Create_success_spec:
  assumes "Create env (fcBackend env c) teamID ttl vcpu ramMb m st tr = Some (Inr vm, m', st', tr')"
    and "wf_mgr m" "no_wrap m vcpu ramMb" "mget (vms m) (newVMID (e_now env tr)) = None"
  shows "m' = withVM vm m" "ID vm = newVMID (e_now env tr)" "mget (vms m) (ID vm) = None"
    "mget (slots m) (Slot vm) = None" "0 \<le> Slot vm" "Slot vm < capacityCPU env"
    "Vcpu vm = vcpu" "RamMb vm = ramMb" "TeamID vm = teamID" "DockerEndpoint vm \<noteq> []"
    "wf_mgr m'" "quiescent m \<Longrightarrow> quiescent m'"
    "cpuSum m' = cpuSum m + vcpu" "ramSum m' = ramSum m + ramMb"
    "cpuSum m' \<le> capacityCPU env" "ramSum m' \<le> capacityRAMMb env m tr" "0 < vcpu" "0 < ramMb"
    "\<And>s. 0 \<le> s \<Longrightarrow> s < Slot vm \<Longrightarrow> mget (slots m) s \<noteq> None"
proof -
  note ok = fc.Create_success [OF assms(1)]
  show m': "m' = withVM vm m" and pos: "0 < vcpu" "0 < ramMb" by (fact ok)+
  obtain d p where vm: "vm = (reserved env teamID (effTTL m ttl) vcpu ramMb (fst (freeSlot env m)) tr)
      \<lparr>DockerEndpoint := d, Pid := p\<rparr>" "d \<noteq> []" using ok(5) by blast
  show "ID vm = newVMID (e_now env tr)" "Vcpu vm = vcpu" "RamMb vm = ramMb" "TeamID vm = teamID"
      "DockerEndpoint vm \<noteq> []"
    using vm by (simp_all add: reserved_def)
  have slot: "Slot vm = fst (freeSlot env m)" by (simp add: vm(1) reserved_def)
  show fresh: "mget (vms m) (ID vm) = None" using assms(4) by (simp add: vm(1) reserved_def)
  show free: "mget (slots m) (Slot vm) = None" using freeSlot_free [OF ok(4)] by (simp add: slot)
  show "0 \<le> Slot vm" "Slot vm < capacityCPU env" using freeSlot_bounds [OF ok(4)] by (simp_all add: slot)
  show "\<And>s. 0 \<le> s \<Longrightarrow> s < Slot vm \<Longrightarrow> mget (slots m) s \<noteq> None" unfolding slot by (rule freeSlot_lowest [OF ok(4)])
  show "wf_mgr m'"
    unfolding m' by (rule wf_withVM [OF assms(2) fresh free]) (use pos vm in \<open>simp_all add: reserved_def\<close>)
  show "quiescent m \<Longrightarrow> quiescent m'" unfolding m' by (rule quiescent_withVM [OF _ fresh])
  show sums: "cpuSum m' = cpuSum m + vcpu" "ramSum m' = ramSum m + ramMb"
    using sums_withVM [OF assms(2) fresh] vm by (simp_all add: m' reserved_def)
  show "cpuSum m' \<le> capacityCPU env" "ramSum m' \<le> capacityRAMMb env m tr"
    using ok(3) admitted_iff [OF assms(2,3) pos] by (simp_all add: sums)
qed

text \<open>
  C12. A \<open>Create\<close> that succeeds adds exactly one VM, under a new id, with the size that was asked
  for and the lowest free slot, below the number of CPUs; every other entry of the VM table is
  as it was, the bookkeeping invariant still holds, and the CPUs and the memory committed,
  the new VM included, are within the host's capacity; given a fresh id and sums within an \<open>int64\<close>.
\<close>

theorem Create_within_budget:
  assumes "Create env (fcBackend env c) teamID ttl vcpu ramMb m st tr = Some (Inr vm, m', st', tr')"
    and "wf_mgr m" "no_wrap m vcpu ramMb" "mget (vms m) (newVMID (e_now env tr)) = None"
  shows "mget (vms m) (ID vm) = None \<and> mget (vms m') = (mget (vms m))(ID vm \<mapsto> vm) \<and>
    mget (slots m') = (mget (slots m))(Slot vm \<mapsto> ID vm) \<and>
    Vcpu vm = vcpu \<and> RamMb vm = ramMb \<and> TeamID vm = teamID \<and> DockerEndpoint vm \<noteq> [] \<and>
    mget (slots m) (Slot vm) = None \<and> 0 \<le> Slot vm \<and> Slot vm < capacityCPU env \<and>
    (\<forall>s. 0 \<le> s \<and> s < Slot vm \<longrightarrow> mget (slots m) s \<noteq> None) \<and>
    wf_mgr m' \<and> cpuSum m' \<le> capacityCPU env \<and> ramSum m' \<le> capacityRAMMb env m tr"
  using Create_success_spec [OF assms] by (auto simp: withVM_def mget_mput fun_eq_iff)

lemma kernel_creates:
  assumes "0 < vcpu" "0 < ramMb" "admitted (kernel (\<lambda>_. False)) m tr vcpu ramMb"
    "snd (freeSlot (kernel (\<lambda>_. False)) m)"
    "TapName (deriveNetConfig (m_cfg m) (fst (freeSlot (kernel (\<lambda>_. False)) m))) \<notin> tapsAfter {} tr"
  obtains vm m' st' tr' where
    "Create (kernel (\<lambda>_. False)) (fcBackend (kernel (\<lambda>_. False)) c) teamID ttl vcpu ramMb m st tr =
       Some (Inr vm, m', st', tr')"
proof -
  let ?k = "kernel (\<lambda>_. False)"
  let ?vm = "reserved ?k teamID (effTTL m ttl) vcpu ramMb (fst (freeSlot ?k m)) tr"
  let ?nc = "deriveNetConfig (m_cfg m) (Slot ?vm)" and ?root = "Join [VMStateDir (m_cfg m), ID ?vm, ''rootfs.ext4'']"
  let ?t = "tr @ [(TimeNow, None), (TimeNow, None)]"
  have "e_err ?k t (Exec ''cp'' a) = None" for t a by (simp add: kernel_def)
  then have rootfs: "prepareRootfs ?k g ?root ?t = (None, ?t @ [(MkdirAll (Dir ?root), None),
      (Exec ''cp'' [''--sparse=always'', g, ?root], None)])" for g
    by (simp add: prepareRootfs_def perform_def Let_def)
  let ?t2 = "?t @ [(MkdirAll (Dir ?root), None), (Exec ''cp'' [''--sparse=always'', GoldenImagePath (m_cfg m), ?root], None)]"
  have "TapName ?nc \<notin> tapsAfter {} ?t2" using assms(5) by simp
  then obtain vm' st' tr' where "fcBoot ?k c ?vm ?nc ?root st ?t2 = Some (None, vm', st', tr')"
    by (rule kernel_boots)
  with assms(1-4) rootfs show ?thesis
    by (intro that) (simp add: Create_def createLocked_cases Let_def effTTL_def fcBackend_def)
qed

abbreviation host :: env where
  "host \<equiv> kernel (\<lambda>_. False)"

lemma kernel_capacity: "capacityCPU (kernel r) = 4" "capacityRAMMb (kernel r) (emptyManager example_cfg) tr = 8192"
proof -
  show "capacityCPU (kernel r) = 4" by (simp add: capacityCPU_def detectCPUTotal_def kernel_def calm_def)
  have "detectRamTotalMb (kernel r) tr = 8192"
    unfolding calm_ram [symmetric] by (simp add: detectRamTotalMb_def kernel_def calm_def)
  then show "capacityRAMMb (kernel r) (emptyManager example_cfg) tr = 8192"
    by (simp add: capacityRAMMb_def emptyManager_def example_cfg_def i64_def Let_def)
qed

lemmas host_capacity = kernel_capacity [of "\<lambda>_. False"]

lemma empty_wf: "wf_mgr (emptyManager cfg)" "quiescent (emptyManager cfg)"
  "cpuSum (emptyManager cfg) = 0" "ramSum (emptyManager cfg) = 0"
  by (simp_all add: wf_mgr_def quiescent_def emptyManager_def wf_map_def cpuSum_def ramSum_def)

lemma empty_freeSlot: "0 < capacityCPU env \<Longrightarrow> freeSlot env (emptyManager cfg) = (0, True)"
  by (simp add: freeSlot_def emptyManager_def freeSlotLoop.simps)

lemma example_create:
  obtains vm m' st' tr' where
    "Create host (fcBackend host example_cfg) ''team'' 60 2 4096 (emptyManager example_cfg)
       NewFirecrackerBackend [] = Some (Inr vm, m', st', tr')"
proof (rule kernel_creates [where tr = "[]"])
  show "admitted host (emptyManager example_cfg) [] 2 4096"
    by (subst admitted_iff) (simp_all add: empty_wf no_wrap_def host_capacity)
  show "snd (freeSlot host (emptyManager example_cfg))" by (simp add: empty_freeSlot host_capacity)
qed simp_all

theorem Create_within_budget_witness:
  "\<exists>vm m' st' tr'. Create host (fcBackend host example_cfg) ''team'' 60 2 4096 (emptyManager example_cfg)
       NewFirecrackerBackend [] = Some (Inr vm, m', st', tr') \<and>
     mget (vms m') (ID vm) = Some vm \<and> Vcpu vm = 2 \<and> cpuSum m' \<le> 4 \<and> ramSum m' \<le> 8192"
proof -
  obtain vm m' st' tr' where run: "Create host (fcBackend host example_cfg) ''team'' 60 2 4096
      (emptyManager example_cfg) NewFirecrackerBackend [] = Some (Inr vm, m', st', tr')"
    by (rule example_create)
  from Create_within_budget [OF run] run show ?thesis
    by (simp add: empty_wf no_wrap_def host_capacity) (simp add: emptyManager_def)
qed

text \<open>
  C15. Admission is exact. As long as the sums stay within an \<open>int64\<close> and no other \<open>Create\<close> is under
  way, a request of positive size is refused for lack of capacity if and only if it does not fit in
  the remaining CPUs or the remaining memory: the slots, one per CPU, never run out first.
\<close>

theorem Create_refused_iff:
  assumes "wf_mgr m" "quiescent m" "no_wrap m vcpu ramMb" "0 < vcpu" "0 < ramMb"
  shows "fst (createLocked env teamID ttlMinutes vcpu ramMb m tr) = Inl ErrNoCapacity \<longleftrightarrow>
    capacityCPU env - cpuSum m < vcpu \<or> capacityRAMMb env m tr - ramSum m < ramMb"
proof -
  have "snd (freeSlot env m)" if "admitted env m tr vcpu ramMb"
    using that admitted_iff [OF assms(1,3-5)] assms(4) by (intro freeSlot_exists [OF assms(1,2)]) simp
  then show ?thesis
    using admitted_iff [OF assms(1,3-5), of env tr] by (auto simp: createLocked_cases Let_def)
qed

theorem Create_refused_iff_witness:
  "fst (createLocked host ''team'' 60 3 512 (withVM example_vm (emptyManager example_cfg)) []) =
     Inl ErrNoCapacity \<and>
   fst (createLocked host ''team'' 60 2 4096 (withVM example_vm (emptyManager example_cfg)) []) \<noteq>
     Inl ErrNoCapacity"
proof -
  let ?m = "withVM example_vm (emptyManager example_cfg)"
  have fresh: "mget (vms (emptyManager example_cfg)) k = None"
      "mget (slots (emptyManager example_cfg)) j = None" for k j
    by (simp_all add: emptyManager_def)
  have wf: "wf_mgr ?m" by (rule wf_withVM [OF empty_wf(1) fresh]) (simp_all add: example_vm_def)
  have q: "quiescent ?m" by (rule quiescent_withVM [OF empty_wf(2) fresh(1)])
  have sums: "cpuSum ?m = 2" "ramSum ?m = 4096"
    using sums_withVM [OF empty_wf(1) fresh(1)] by (simp_all add: empty_wf) (simp_all add: example_vm_def)
  have "capacityRAMMb host ?m [] = 8192"
    using host_capacity(2) by (simp add: capacityRAMMb_def withVM_def)
  with Create_refused_iff [OF wf q, of 3 512 host "''team''" 60 "[]"]
    Create_refused_iff [OF wf q, of 2 4096 host "''team''" 60 "[]"]
  show ?thesis by (simp add: no_wrap_def sums host_capacity)
qed

section \<open>Create and Destroy on the host\<close>

lemma persist_off: "extends offNetwork tr (snd (persist env m vm tr))"
  by (auto simp: persist_def perform_def Let_def extends_def split: option.splits sum.splits)

lemma prepareRootfs_neutral: "extends neutral tr (snd (prepareRootfs env g d tr))"
  by (auto simp: prepareRootfs_def perform_def Let_def extends_def split: option.splits)

lemma Create_success_boot:
  assumes "Create env B teamID ttl vcpu ramMb m b tr = Some (Inr vm, m', b', tr')"
  obtains tr1 tr2 m1 where "extends neutral tr tr1" "extends offNetwork tr2 tr'"
    "tr' = snd (persist env m1 vm tr2)" "m_cfg m1 = m_cfg m"
    "Boot B (reserved env teamID (effTTL m ttl) vcpu ramMb (fst (freeSlot env m)) tr)
       (deriveNetConfig (m_cfg m) (fst (freeSlot env m)))
       (Join [VMStateDir (m_cfg m), newVMID (e_now env tr), ''rootfs.ext4'']) b tr1 = Some (None, vm, b', tr2)"
proof -
  let ?vm0 = "reserved env teamID (effTTL m ttl) vcpu ramMb (fst (freeSlot env m)) tr"
  let ?nc = "deriveNetConfig (m_cfg m) (fst (freeSlot env m))"
  let ?root = "Join [VMStateDir (m_cfg m), newVMID (e_now env tr), ''rootfs.ext4'']"
  let ?t = "tr @ [(TimeNow, None), (TimeNow, None)]"
  obtain tr1 tr2 m1 where root: "prepareRootfs env (GoldenImagePath (m_cfg m)) ?root ?t = (None, tr1)"
    and boot: "Boot B ?vm0 ?nc ?root b tr1 = Some (None, vm, b', tr2)" and p: "tr' = snd (persist env m1 vm tr2)" "m_cfg m1 = m_cfg m"
    using assms
    by (auto simp: Create_def createLocked_cases Let_def effTTL_def bind_eq_Some_conv
      split: if_splits prod.splits option.splits)
  then have "extends offNetwork tr2 tr'" using persist_off by simp
  moreover have "extends neutral ?t tr1" using prepareRootfs_neutral [of ?t env] root by (metis snd_conv)
  then have "extends neutral tr tr1" by (rule extends_trans [rotated]) (simp add: extends_def)
  ultimately show ?thesis using that [OF _ _ p boot] by blast
qed

lemma Create_error_boot:
  assumes "Create env B teamID ttl vcpu ramMb m b tr = Some (Inl e, m', b', tr')"
  obtains (early) "extends neutral tr tr'" "b' = b"
  | (notBooted) tr1 x vm' tr2 y where "extends neutral tr tr1" "e = Wrap ''boot vm'' x" "snd (freeSlot env m)"
      "Boot B (reserved env teamID (effTTL m ttl) vcpu ramMb (fst (freeSlot env m)) tr)
         (deriveNetConfig (m_cfg m) (fst (freeSlot env m)))
         (Join [VMStateDir (m_cfg m), newVMID (e_now env tr), ''rootfs.ext4'']) b tr1 = Some (Some x, vm', b', tr2)"
      "tr' = tr2 @ [(RemoveAll (vmDir (m_cfg m) (ID vm')), y)]" "y = e_err env tr2 (RemoveAll (vmDir (m_cfg m) (ID vm')))"
proof (cases "0 < vcpu \<and> 0 < ramMb \<and> admitted env m tr vcpu ramMb \<and> snd (freeSlot env m)")
  case False
  with assms have "tr' = tr" "b' = b" by (auto simp: Create_def createLocked_cases Let_def split: if_splits)
  with early show ?thesis by simp
next
  case True
  let ?root = "Join [VMStateDir (m_cfg m), newVMID (e_now env tr), ''rootfs.ext4'']"
  let ?t = "tr @ [(TimeNow, None), (TimeNow, None)]"
  obtain pe tr1 where root: "prepareRootfs env (GoldenImagePath (m_cfg m)) ?root ?t = (pe, tr1)" by (metis surj_pair)
  have "extends neutral tr ?t" by (simp add: extends_def)
  moreover have "extends neutral ?t tr1" using prepareRootfs_neutral [of ?t env] root by (metis snd_conv)
  ultimately have 1: "extends neutral tr tr1" by (rule extends_trans)
  show ?thesis
  proof (cases pe)
    case (Some x)
    with assms True root 1 early show ?thesis
      by (auto simp: Create_def createLocked_cases Let_def effTTL_def)
  next
    case None
    with assms True root 1 notBooted show ?thesis
      by (fastforce simp: Create_def createLocked_cases Let_def effTTL_def bind_eq_Some_conv
        removeVMDir_def perform_def split: option.splits)
  qed
qed

lemma Create_success_network:
  assumes "net_ok env M T"
    "Create env (fcBackend env c) teamID ttl vcpu ramMb m st tr = Some (Inr vm, m', st', tr')"
  shows "rulesAfter M tr' = rulesAfter M tr + vmRules c (deriveNetConfig (m_cfg m) (Slot vm))"
    "tapsAfter T tr' = insert (TapName (deriveNetConfig (m_cfg m) (Slot vm))) (tapsAfter T tr)"
    "TapName (deriveNetConfig (m_cfg m) (Slot vm)) \<notin> tapsAfter T tr"
    "\<exists>h. machines st' = mput (ID vm) h (machines st)"
proof -
  obtain tr1 tr2 where tr1: "extends neutral tr tr1" and tr2: "extends offNetwork tr2 tr'"
    and boot: "fcBoot env c (reserved env teamID (effTTL m ttl) vcpu ramMb (fst (freeSlot env m)) tr)
       (deriveNetConfig (m_cfg m) (fst (freeSlot env m)))
       (Join [VMStateDir (m_cfg m), newVMID (e_now env tr), ''rootfs.ext4'']) st tr1 = Some (None, vm, st', tr2)"
    using Create_success_boot [OF assms(2)] by (metis Backend.select_convs(1) fcBackend_def)
  have slot: "Slot vm = fst (freeSlot env m)"
    using fc.boot_keeps(2) [of env c] boot by (simp add: fcBackend_def reserved_def)
  from fcBoot_success [OF assms(1) boot] neutral_effects [OF tr1] off_effects [OF tr2]
  show "rulesAfter M tr' = rulesAfter M tr + vmRules c (deriveNetConfig (m_cfg m) (Slot vm))"
    "tapsAfter T tr' = insert (TapName (deriveNetConfig (m_cfg m) (Slot vm))) (tapsAfter T tr)"
    "TapName (deriveNetConfig (m_cfg m) (Slot vm)) \<notin> tapsAfter T tr"
    by (simp_all add: slot del: NetConfig_simps)
  show "\<exists>h. machines st' = mput (ID vm) h (machines st)"
    using boot by (cases rule: fcBoot_cases) auto
qed

lemma destroyCleanup_effect:
  assumes "net_ok env M T"
  shows "rulesAfter M (destroyCleanup env c vm tr) = rulesAfter M tr - vmRules c (deriveNetConfig c (Slot vm))"
    "tapsAfter T (destroyCleanup env c vm tr) = tapsAfter T tr - {TapName (deriveNetConfig c (Slot vm))}"
  by (simp_all add: destroyCleanup_def Let_def removeCgroup_def removeVMDir_def perform_def
    ruleEffect_off tapEffect_off teardown_effect [OF assms] del: NetConfig_simps)

lemma fcStop_neutral: "fcStop env vm st tr = (err, st', tr') \<Longrightarrow> extends neutral tr tr'"
  by (auto simp: fcStop_def perform_def performIgnore_eq Let_def extends_def
    split: option.splits if_splits)

lemma fcStop_success_machines:
  "fcStop env vm st tr = (None, st', tr') \<Longrightarrow> machines st' = mdel (ID vm) (machines st)"
  by (auto simp: fcStop_def perform_def Let_def mdel_absent split: option.splits if_splits)

text \<open>
  C7. A VM that is created and then destroyed leaves nothing behind: the VM table and the slots are
  the ones before, entry for entry, the backend holds the machines it held before, and the tap
  devices and iptables rules of the host are those before.
\<close>

theorem Create_Destroy_roundtrip:
  assumes "net_ok env M T" "mget (vms m) (newVMID (e_now env tr)) = None"
    and "mget (machines st) (newVMID (e_now env tr)) = None"
    and "Create env (fcBackend env (m_cfg m)) teamID ttl vcpu ramMb m st tr = Some (Inr vm, m1, st1, tr1)"
    and "Destroy env (fcBackend env (m_cfg m)) (ID vm) m1 st1 tr1 = (None, m2, st2, tr2)"
  shows "m2 = m \<and> st2 = st \<and> rulesAfter M tr2 = rulesAfter M tr \<and> tapsAfter T tr2 = tapsAfter T tr"
proof -
  note ok = fc.Create_success [OF assms(4)]
  note net = Create_success_network [OF assms(1,4)]
  obtain d p where vm: "vm = (reserved env teamID (effTTL m ttl) vcpu ramMb (fst (freeSlot env m)) tr)
      \<lparr>DockerEndpoint := d, Pid := p\<rparr>" using ok(5) by blast
  have vmid: "ID vm = newVMID (e_now env tr)" and slot: "Slot vm = fst (freeSlot env m)"
    by (simp_all add: vm reserved_def)
  have m1: "m1 = withVM vm m" "m_cfg m1 = m_cfg m" "mget (vms m1) (ID vm) = Some vm"
    using ok(6) by (simp_all add: withVM_def mget_mput)
  obtain trs where stop: "fcStop env vm st1 tr1 = (None, st2, trs)"
    and m2: "m2 = destroyLocked (ID vm) vm m1" and tr2: "tr2 = destroyCleanup env (m_cfg m) vm trs"
    using assms(5) m1(2,3) by (auto simp: Destroy_def fcBackend_def split: prod.splits option.splits)
  have "m2 = m"
    using freeSlot_free [OF ok(4)] assms(2)
    by (simp add: m2 m1(1) withVM_def destroyLocked_def mdel_mput_fresh vmid slot)
  moreover have "st2 = st"
  proof -
    obtain h where "machines st1 = mput (ID vm) h (machines st)" using net(4) by blast
    with fcStop_success_machines [OF stop] assms(3) show ?thesis
      by (simp add: mdel_mput_fresh vmid)
  qed
  moreover from neutral_effects [OF fcStop_neutral [OF stop]] net(1-3)
  have "rulesAfter M tr2 = rulesAfter M tr" "tapsAfter T tr2 = tapsAfter T tr"
    by (simp_all add: tr2 destroyCleanup_effect [OF assms(1)] del: NetConfig_simps)
  ultimately show ?thesis by simp
qed

theorem Create_Destroy_roundtrip_witness:
  "\<exists>vm m1 st1 tr1 tr2.
     Create host (fcBackend host example_cfg) ''team'' 60 2 4096 (emptyManager example_cfg)
       NewFirecrackerBackend [] = Some (Inr vm, m1, st1, tr1) \<and>
     Destroy host (fcBackend host example_cfg) (ID vm) m1 st1 tr1 =
       (None, emptyManager example_cfg, NewFirecrackerBackend, tr2) \<and>
     rulesAfter {#} tr2 = {#} \<and> tapsAfter {} tr2 = {}"
proof -
  have cfg: "m_cfg (emptyManager example_cfg) = example_cfg" by (simp add: emptyManager_def)
  obtain vm m1 st1 tr1 where run: "Create host (fcBackend host example_cfg) ''team'' 60 2 4096
      (emptyManager example_cfg) NewFirecrackerBackend [] = Some (Inr vm, m1, st1, tr1)"
    by (rule example_create)
  have "mget (vms m1) (ID vm) = Some vm"
    using fc.Create_success(6) [OF run] by (simp add: withVM_def mget_mput)
  moreover obtain h where "mget (machines st1) (ID vm) = Some h"
    using Create_success_network(4) [OF kernel_net_ok run] by (auto simp: mget_mput)
  ultimately obtain m2 st2 tr2 where
    del: "Destroy host (fcBackend host example_cfg) (ID vm) m1 st1 tr1 = (None, m2, st2, tr2)"
    by (simp add: Destroy_def fcBackend_def fcStop_def perform_def Let_def)
  have "mget (vms (emptyManager example_cfg)) k = None" "mget (machines NewFirecrackerBackend) k = None" for k
    by (simp_all add: emptyManager_def NewFirecrackerBackend_def)
  from Create_Destroy_roundtrip [where m = "emptyManager example_cfg", unfolded cfg, OF kernel_net_ok this run del]
    run del
  show ?thesis by auto
qed

text \<open>
  The clean-up of \<open>Destroy\<close> goes by slot. If it runs after the slot has been given to another VM, as the second of two
  destroys of one VM may, it takes the rules and the tap device of the new VM away while that VM stays
  in the table.
\<close>

theorem late_cleanup_cuts_successor:
  assumes "net_ok env M T" "m_cfg m = c"
    and "Create env (fcBackend env c) teamID ttl vcpu ramMb m st tr = Some (Inr vm', m', st', tr')"
    and "Slot vm = Slot vm'"
  shows "rulesAfter M (destroyCleanup env c vm tr') = rulesAfter M tr \<and>
    tapsAfter T (destroyCleanup env c vm tr') = tapsAfter T tr \<and> mget (vms m') (ID vm') = Some vm'"
proof -
  have "mget (vms m') (ID vm') = Some vm'"
    using fc.Create_success(6) [OF assms(3)] by (simp add: withVM_def mget_mput)
  with Create_success_network [OF assms(1,3)] destroyCleanup_effect [OF assms(1), of c vm tr'] assms(2,4)
  show ?thesis by (simp del: NetConfig_simps)
qed

section \<open>Every run\<close>

text \<open>
  The states the manager and the backend pass through when API calls and reaper rounds run one
  after the other from an empty start, with any other calls to the outside in between. A
  request is for less than \<open>2^62\<close> CPUs and megabytes, and the id made from the clock is not
  the id of a VM in the table.
\<close>

inductive mgr_run :: "env \<Rightarrow> Config \<Rightarrow> Manager \<Rightarrow> FcState \<Rightarrow> trace \<Rightarrow> bool" for env c where
  start: "mgr_run env c (emptyManager c) NewFirecrackerBackend tr"
| other: "mgr_run env c m st tr \<Longrightarrow> mgr_run env c m st (tr @ ev)"
| create: "mgr_run env c m st tr \<Longrightarrow> vcpu < 2 ^ 62 \<Longrightarrow> ramMb < 2 ^ 62 \<Longrightarrow>
    mget (vms m) (newVMID (e_now env tr)) = None \<Longrightarrow>
    Create env (fcBackend env c) teamID ttl vcpu ramMb m st tr = Some (r, m', st', tr') \<Longrightarrow>
    mgr_run env c m' st' tr'"
| destroy: "mgr_run env c m st tr \<Longrightarrow>
    Destroy env (fcBackend env c) k m st tr = (e, m', st', tr') \<Longrightarrow> mgr_run env c m' st' tr'"
| reap: "mgr_run env c m st tr \<Longrightarrow>
    ReapExpired env (fcBackend env c) m st tr = (ids, m', st', tr') \<Longrightarrow> mgr_run env c m' st' tr'"

inductive_cases mgr_runE: "mgr_run env c m st tr"

definition mgr_inv :: "env \<Rightarrow> Config \<Rightarrow> int \<Rightarrow> Manager \<Rightarrow> bool" where
  "mgr_inv env c R m \<longleftrightarrow> wf_mgr m \<and> quiescent m \<and> m_cfg m = c \<and>
     cpuSum m \<le> capacityCPU env \<and> ramSum m \<le> R \<and>
     (\<forall>k vm. mget (vms m) k = Some vm \<longrightarrow> 0 \<le> Slot vm \<and> Slot vm < capacityCPU env)"

lemma mgr_inv_destroyLocked:
  assumes "mgr_inv env c R m" "mget (vms m) k = Some vm"
  shows "mgr_inv env c R (destroyLocked k vm m)"
proof -
  have wf: "wf_mgr m" "quiescent m" using assms(1) by (simp_all add: mgr_inv_def)
  from wf_mgrD(5,6) [OF wf(1) assms(2)] sums_destroyLocked [OF wf(1) assms(2)]
    wf_destroyLocked [OF wf(1) assms(2)] quiescent_destroyLocked [OF wf assms(2)] assms(1)
  show ?thesis
    by (auto simp: mgr_inv_def) (auto simp: destroyLocked_def mget_mdel split: if_splits)
qed

lemma mgr_inv_Destroy:
  assumes "mgr_inv env c R m" "Destroy env (fcBackend env c) k m st tr = (e, m', st', tr')"
  shows "mgr_inv env c R m'"
proof (cases e)
  case None
  with assms(2) fc.Destroy_success obtain vm where "mget (vms m) k = Some vm" "m' = destroyLocked k vm m" by blast
  with mgr_inv_destroyLocked [OF assms(1)] show ?thesis by simp
next
  case (Some x)
  with assms fc.Destroy_error show ?thesis by blast
qed

lemma mgr_inv_reapLoop:
  "mgr_inv env c R m \<Longrightarrow> reapLoop env (fcBackend env c) ids m st tr = (r, m', st', tr') \<Longrightarrow>
   mgr_inv env c R m'"
proof (induction ids arbitrary: m st tr r)
  case (Cons k ids)
  obtain e m1 st1 tr1 where d: "Destroy env (fcBackend env c) k m st tr = (e, m1, st1, tr1)"
    by (metis prod_cases4)
  from Cons.IH [OF mgr_inv_Destroy [OF Cons.prems(1) d]] Cons.prems(2) show ?case
    by (auto simp: d split: option.splits prod.splits)
qed simp

lemma mgr_inv_Create:
  assumes "mgr_inv env c R m" "vcpu < 2 ^ 62" "ramMb < 2 ^ 62" "capacityCPU env \<le> 2 ^ 62" "R \<le> 2 ^ 62"
    and "capacityRAMMb env m tr \<le> R" "mget (vms m) (newVMID (e_now env tr)) = None"
    and "Create env (fcBackend env c) teamID ttl vcpu ramMb m st tr = Some (r, m', st', tr')"
  shows "mgr_inv env c R m'"
proof (cases r)
  case (Inl e)
  with assms(1,8) fc.Create_error show ?thesis by blast
next
  case (Inr vm)
  have wf: "wf_mgr m" "no_wrap m vcpu ramMb"
    using assms(1-5) by (auto simp: mgr_inv_def no_wrap_def)
  note spec = Create_success_spec [OF assms(8) [unfolded Inr] wf assms(7)]
  show ?thesis
    using assms(1) spec(5,6,11-16) assms(6)
    by (auto simp: mgr_inv_def) (auto simp: spec(1) withVM_def mget_mput split: if_splits)
qed

lemma mgr_run_inv:
  assumes "mgr_run env c m st tr" "0 \<le> capacityCPU env" "capacityCPU env \<le> 2 ^ 62" "0 \<le> R" "R \<le> 2 ^ 62"
    "\<And>tr m. m_cfg m = c \<Longrightarrow> capacityRAMMb env m tr = R"
  shows "mgr_inv env c R m"
  using assms(1)
proof (induction rule: mgr_run.induct)
  case start
  show ?case
    using assms(2,4) by (simp add: mgr_inv_def empty_wf) (simp add: emptyManager_def)
next
  case (create m st tr vcpu ramMb teamID ttl r m' st' tr')
  have "capacityRAMMb env m tr \<le> R"
    using create.IH assms(6) by (simp add: mgr_inv_def)
  from mgr_inv_Create [OF create.IH create.hyps(2,3) assms(3,5) this create.hyps(4,5)] show ?case .
next
  case (destroy m st tr k e m' st' tr')
  from mgr_inv_Destroy [OF destroy.IH destroy.hyps(2)] show ?case .
next
  case (reap m st tr ids m' st' tr')
  from reap.hyps(2) mgr_inv_reapLoop [OF reap.IH] show ?case
    by (auto simp: ReapExpired_def timeNow_def)
qed

text \<open>
  C4. In every run of API calls and reaper rounds one after the other, the sum of the CPUs and
  the sum of the memory of the VMs in the table never exceed the host's capacity, two VMs never
  hold the same slot, every slot held is held for a VM in the table and is below the number
  of CPUs.
\<close>

theorem run_within_capacity:
  assumes "mgr_run env c m st tr" "0 \<le> capacityCPU env" "capacityCPU env \<le> 2 ^ 62" "0 \<le> R" "R \<le> 2 ^ 62"
    "\<And>tr m. m_cfg m = c \<Longrightarrow> capacityRAMMb env m tr = R"
  shows "cpuSum m \<le> capacityCPU env \<and> ramSum m \<le> R \<and>
    inj_on (\<lambda>k. Slot (the (mget (vms m) k))) (dom (mget (vms m))) \<and>
    (\<forall>s k. mget (slots m) s = Some k \<longleftrightarrow> (\<exists>vm. mget (vms m) k = Some vm \<and> Slot vm = s)) \<and>
    dom (mget (slots m)) \<subseteq> {0..<capacityCPU env}"
proof -
  have inv: "mgr_inv env c R m" by (rule mgr_run_inv [OF assms])
  then have wf: "wf_mgr m" and q: "quiescent m" by (simp_all add: mgr_inv_def)
  have "inj_on (\<lambda>k. Slot (the (mget (vms m) k))) (dom (mget (vms m)))"
    using wf_mgr_slots_inj [OF wf] by (auto simp: inj_on_def)
  moreover have "mget (slots m) s = Some k \<longleftrightarrow> (\<exists>vm. mget (vms m) k = Some vm \<and> Slot vm = s)" for s k
    using q wf_mgrD(4) [OF wf] by (auto simp: quiescent_def)
  moreover have "dom (mget (slots m)) \<subseteq> {0..<capacityCPU env}"
    using inv q by (fastforce simp: mgr_inv_def quiescent_def)
  ultimately show ?thesis using inv by (simp add: mgr_inv_def)
qed

lemma host_run:
  obtains vm m' st' tr' where "mgr_run host example_cfg m' st' tr'" "mget (vms m') (ID vm) = Some vm"
    "ID vm = newVMID 0" "Slot vm = 0" "Vcpu vm = 2" "RamMb vm = 4096" "length (vms m') = 1"
proof -
  let ?m = "emptyManager example_cfg"
  obtain vm m' st' tr' where run: "Create host (fcBackend host example_cfg) ''team'' 60 2 4096 ?m
      NewFirecrackerBackend [] = Some (Inr vm, m', st', tr')" by (rule example_create)
  have fresh: "mget (vms ?m) k = None" for k by (simp add: emptyManager_def)
  have "mgr_run host example_cfg m' st' tr'"
    by (rule mgr_run.create [OF mgr_run.start _ _ fresh run]) simp_all
  moreover have "no_wrap ?m 2 4096" by (simp add: no_wrap_def empty_wf)
  note spec = Create_success_spec [OF run empty_wf(1) this fresh]
  have "e_now host [] = 0" by (simp add: kernel_def calm_def)
  with spec(2) have "ID vm = newVMID 0" by simp
  moreover have "Slot vm = 0"
    using fc.Create_success(5) [OF run] by (auto simp: empty_freeSlot host_capacity)
  ultimately show ?thesis
    using that spec(1,7,8) by (simp add: withVM_def emptyManager_def)
qed

lemma host_ram: "m_cfg m = example_cfg \<Longrightarrow> capacityRAMMb host m tr = 8192"
  using host_capacity(2) [of tr] by (simp add: capacityRAMMb_def emptyManager_def)

theorem run_within_capacity_witness:
  "\<exists>m st tr. mgr_run host example_cfg m st tr \<and> length (vms m) = 1 \<and> cpuSum m \<le> 4 \<and> ramSum m \<le> 8192"
proof -
  obtain vm m st tr where run: "mgr_run host example_cfg m st tr" "length (vms m) = 1" by (rule host_run)
  from run_within_capacity [OF run(1) _ _ _ _ host_ram] run show ?thesis
    by (auto simp: host_capacity)
qed

text \<open>
  In every such run, \<open>Health\<close> reports the true sums over the table, each between zero and the
  total it reports beside it, and the number of VMs in the table.
\<close>

theorem run_health:
  assumes "mgr_run env c m st tr" "0 \<le> capacityCPU env" "capacityCPU env \<le> 2 ^ 62" "0 \<le> R" "R \<le> 2 ^ 62"
    "\<And>tr m. m_cfg m = c \<Longrightarrow> capacityRAMMb env m tr = R"
  shows "Health env m tr' =
      \<lparr>CPUTotal = capacityCPU env, CPUUsed = cpuSum m, RAMTotalMb = R, RAMUsedMb = ramSum m,
       ActiveVMCount = int (card (dom (mget (vms m))))\<rparr> \<and>
    int (card (dom (mget (vms m)))) \<le> cpuSum m \<and> cpuSum m \<le> capacityCPU env \<and>
    0 \<le> ramSum m \<and> ramSum m \<le> R"
proof -
  have inv: "mgr_inv env c R m" by (rule mgr_run_inv [OF assms])
  then have wf: "wf_mgr m" by (simp add: mgr_inv_def)
  have "i64 (cpuSum m) = cpuSum m" "i64 (ramSum m) = ramSum m"
    using inv sums_nonneg [OF wf] assms(3,5) by (auto simp: mgr_inv_def intro!: i64_nonneg_less)
  with inv sum_pos(1) [OF wf] sums_nonneg [OF wf] assms(6) gm.length_entries [OF wf_mgrD(1) [OF wf]]
  show ?thesis
    by (simp add: Health_def usedCPULocked_eq usedRAMMbLocked_eq mgr_inv_def)
qed

theorem run_health_witness:
  "\<exists>m st tr. mgr_run host example_cfg m st tr \<and> CPUTotal (Health host m tr) = 4 \<and>
     CPUUsed (Health host m tr) \<le> 4 \<and> 1 \<le> CPUUsed (Health host m tr) \<and> ActiveVMCount (Health host m tr) = 1"
proof -
  obtain vm m st tr where run: "mgr_run host example_cfg m st tr" "length (vms m) = 1" by (rule host_run)
  from run_health [OF run(1) _ _ _ _ host_ram, of tr] run show ?thesis
    by (intro exI [of _ m] exI [of _ st] exI [of _ tr]) (auto simp: host_capacity Health_def)
qed

section \<open>Reaping\<close>

lemma ReapExpired_spec:
  assumes "wf_mgr m" "ReapExpired env (fcBackend env c) m st tr = (ids, m', st', tr')"
  shows "(\<forall>k. mget (vms m') k = (if k \<in> set ids then None else mget (vms m) k)) \<and>
    set ids \<subseteq> {k. \<exists>vm. mget (vms m) k = Some vm \<and> ExpiresAt vm < e_now env tr} \<and> wf_mgr m' \<and>
    ((\<forall>vm st tr. fst (fcStop env vm st tr) = None) \<longrightarrow>
       set ids = {k. \<exists>vm. mget (vms m) k = Some vm \<and> ExpiresAt vm < e_now env tr})"
proof -
  let ?exp = "expiredIDs (e_now env tr) m"
  have loop: "reapLoop env (fcBackend env c) ?exp m st (tr @ [(TimeNow, None)]) = (ids, m', st', tr')"
    using assms(2) by (simp add: ReapExpired_def timeNow_def)
  have exp: "set ?exp = {k. \<exists>vm. mget (vms m) k = Some vm \<and> ExpiresAt vm < e_now env tr}"
    using expiredIDs_iff [OF assms(1)] by blast
  have "ids = ?exp" if "\<forall>vm st tr. fst (fcStop env vm st tr) = None"
    by (rule fc.reapLoop_all [OF _ expiredIDs_distinct [OF assms(1)] _ loop])
      (use that exp in \<open>auto simp: fcBackend_def\<close>)
  with fc.reapLoop_spec [OF assms(1) loop] exp show ?thesis by auto
qed

text \<open>
  C16. A reaper round destroys only VMs whose time is up at the start of the round. The ids it returns
  are exactly those that left the table, every other VM stays as it was, and the bookkeeping
  invariant is kept. When no stop fails, every expired VM is gone afterwards.
\<close>

theorem ReapExpired_exact:
  assumes "wf_mgr m" "ReapExpired env (fcBackend env c) m st tr = (ids, m', st', tr')"
  shows "(\<forall>k. mget (vms m') k = (if k \<in> set ids then None else mget (vms m) k)) \<and>
    set ids \<subseteq> {k. \<exists>vm. mget (vms m) k = Some vm \<and> ExpiresAt vm < e_now env tr} \<and> wf_mgr m' \<and>
    ((\<forall>vm st tr. fst (fcStop env vm st tr) = None) \<longrightarrow>
       set ids = {k. \<exists>vm. mget (vms m) k = Some vm \<and> ExpiresAt vm < e_now env tr})"
  by (rule ReapExpired_spec [OF assms])

theorem ReapExpired_exact_witness:
  "\<exists>ids m' st' tr'.
     ReapExpired calm (fcBackend calm example_cfg) (withVM (example_vm\<lparr>CreatedAt := -1, TTL := 0\<rparr>)
       (emptyManager example_cfg)) NewFirecrackerBackend [] = (ids, m', st', tr') \<and>
     set ids = {''vm_1''} \<and> vms m' = []"
proof -
  let ?vm = "example_vm\<lparr>CreatedAt := -1, TTL := 0\<rparr>"
  let ?m = "withVM ?vm (emptyManager example_cfg)"
  have wf: "wf_mgr ?m"
    by (rule wf_withVM [OF empty_wf(1)]) (simp_all add: example_vm_def emptyManager_def)
  have get: "mget (vms ?m) k = (if k = ''vm_1'' then Some ?vm else None)" for k
    by (simp add: withVM_def emptyManager_def example_vm_def)
  have exp: "ExpiresAt ?vm < e_now calm []" by (simp add: ExpiresAt_def example_vm_def calm_def)
  have stops: "\<forall>vm st tr. fst (fcStop calm vm st tr) = None"
    by (auto simp: fcStop_def perform_def calm_def Let_def split: option.splits)
  obtain ids m' st' tr' where run: "ReapExpired calm (fcBackend calm example_cfg) ?m NewFirecrackerBackend [] =
      (ids, m', st', tr')" by (metis prod_cases4)
  from ReapExpired_exact [OF wf run] stops exp have ids: "set ids = {''vm_1''}"
    and "\<forall>k. mget (vms m') k = None"
    by (auto simp: get)
  then have "vms m' = []" by (cases "vms m'") (auto split: if_splits)
  with run ids show ?thesis by blast
qed

section \<open>Addresses of guests\<close>

lemma GuestAddr_eq:
  "mget (vms m) k = Some vm \<Longrightarrow>
   GuestAddr k port m = Inr (IP_String (GuestIP (deriveNetConfig (m_cfg m) (Slot vm))) @ '':'' @ Itoa port)"
proof -
  have "CHR '':'' \<notin> set (IP_String ip)" for ip
    using IP_String_chars [of "CHR '':''" ip] by (auto simp: is_digit_def)
  then show "mget (vms m) k = Some vm \<Longrightarrow> ?thesis"
    by (simp add: GuestAddr_def JoinHostPort_plain del: NetConfig_simps)
qed

lemma sep_inj:
  assumes "x @ c # y = x' @ c # y'" "c \<notin> set x" "c \<notin> set x'"
  shows "x = x' \<and> y = y'"
proof -
  have "takeWhile (\<lambda>d. d \<noteq> c) (x @ c # y) = x" "takeWhile (\<lambda>d. d \<noteq> c) (x' @ c # y') = x'"
    using assms(2,3) by (auto simp: takeWhile_tail takeWhile_eq_all_conv split: if_splits)
  with assms(1) show ?thesis by (metis append_same_eq list.inject same_append_eq)
qed

text \<open>
  \<open>GuestAddr\<close> fails only for an id that is not in the table, and never gives two VMs the
  same address: whenever two VMs of the table and two ports give the same address, they are the
  same VM and the same port.
\<close>

theorem GuestAddr_identifies_VM:
  assumes "wf_mgr m" "\<forall>k vm. mget (vms m) k = Some vm \<longrightarrow> 0 \<le> Slot vm \<and> Slot vm < 2 ^ 30"
    and "GuestAddr k port m = Inr a" "GuestAddr k' port' m = Inr a"
  shows "k = k' \<and> port = port' \<and> (\<forall>j p. GuestAddr j p m = Inl ErrNotFound \<longleftrightarrow> Get j m = None)"
proof -
  obtain vm vm' where vm: "mget (vms m) k = Some vm" and vm': "mget (vms m) k' = Some vm'"
    using assms(3,4) by (auto simp: GuestAddr_def split: option.splits)
  let ?ip = "\<lambda>vm. IP_String (GuestIP (deriveNetConfig (m_cfg m) (Slot vm)))"
  have "?ip vm @ CHR '':'' # Itoa port = ?ip vm' @ CHR '':'' # Itoa port'"
    using assms(3,4) GuestAddr_eq [OF vm] GuestAddr_eq [OF vm'] by simp
  moreover have "CHR '':'' \<notin> set (IP_String ip)" for ip
    using IP_String_chars [of "CHR '':''" ip] by (auto simp: is_digit_def)
  ultimately have ip: "?ip vm = ?ip vm'" and "Itoa port = Itoa port'"
    using sep_inj by (metis (no_types, lifting))+
  then have "port = port'" by (simp add: Itoa_inj)
  moreover have "Slot vm = Slot vm'"
  proof -
    have "0 \<le> Slot vm" "Slot vm < 2 ^ 30" "0 \<le> Slot vm'" "Slot vm' < 2 ^ 30"
      using assms(2) vm vm' by blast+
    with ip show ?thesis by (simp add: IP_String_inj poolAddr_inj)
  qed
  then have "k = k'" by (rule wf_mgr_slots_inj [OF assms(1) vm vm'])
  ultimately show ?thesis by (auto simp: GuestAddr_def Get_def split: option.splits)
qed

theorem GuestAddr_identifies_VM_witness:
  "GuestAddr ''vm_1'' 8080 (withVM example_vm (emptyManager example_cfg)) = Inr ''172.20.0.2:8080'' \<and>
   GuestAddr ''vm_2'' 8080 (withVM example_vm (emptyManager example_cfg)) = Inl ErrNotFound"
proof -
  let ?m = "withVM example_vm (emptyManager example_cfg)"
  have wf: "wf_mgr ?m"
    by (rule wf_withVM [OF empty_wf(1)]) (simp_all add: example_vm_def emptyManager_def)
  have get: "mget (vms ?m) k = (if k = ''vm_1'' then Some example_vm else None)" for k
    by (simp add: withVM_def emptyManager_def example_vm_def)
  have addr: "GuestAddr ''vm_1'' 8080 ?m = Inr ''172.20.0.2:8080''"
  proof -
    have "IP_String (GuestIP (deriveNetConfig example_cfg 0)) = ''172.20.0.2''"
      by (simp add: poolAddr_def example_cfg_def) code_simp
    moreover have "m_cfg ?m = example_cfg" "Slot example_vm = 0"
      by (simp_all add: withVM_def emptyManager_def example_vm_def)
    ultimately show ?thesis
      using GuestAddr_eq [of ?m "''vm_1''" example_vm 8080] get
      by (simp add: Itoa_def nat_digits.simps del: NetConfig_simps)
  qed
  have "\<forall>k vm. mget (vms ?m) k = Some vm \<longrightarrow> 0 \<le> Slot vm \<and> Slot vm < 2 ^ 30"
    by (simp add: get) (simp add: example_vm_def)
  from GuestAddr_identifies_VM [OF wf this addr addr] addr get show ?thesis by (simp add: Get_def)
qed

section \<open>Restart\<close>

fun isRead :: "call \<Rightarrow> bool" where
  "isRead (ReadDir _) = True"
| "isRead (ReadFile _) = True"
| "isRead _ = False"

text \<open>
  After the calls \<open>tr\<close> the state directory holds what \<open>persist\<close> wrote for the table's VMs, and goes on
  holding it while it is only read: for each VM a directory of its id with its marshalled
  metadata, and beside them only files and directories without readable metadata.
\<close>

definition disk_holds :: "env \<Rightarrow> Manager \<Rightarrow> trace \<Rightarrow> (string \<times> bool) list \<Rightarrow> bool" where
  "disk_holds env m tr entries \<longleftrightarrow>
     e_readDir env tr (VMStateDir (m_cfg m)) = Inr entries \<and>
     (\<forall>k\<in>dom (mget (vms m)). (k, True) \<in> set entries) \<and>
     (\<forall>name tr'. (name, True) \<in> set entries \<longrightarrow> extends isRead tr tr' \<longrightarrow>
        (case mget (vms m) name of
           Some vm \<Rightarrow> \<exists>data. marshalVM env vm = Inr data \<and>
             e_readFile env tr' (Join [VMStateDir (m_cfg m), name, ''meta.json'']) = Inr data
         | None \<Rightarrow> \<exists>e. e_readFile env tr' (Join [VMStateDir (m_cfg m), name, ''meta.json'']) = Inl e))"

fun savedVMs :: "Manager \<Rightarrow> (string \<times> bool) list \<Rightarrow> VM list" where
  "savedVMs m [] = []"
| "savedVMs m ((name, isDir) # entries) =
     (if isDir then (case mget (vms m) name of Some vm \<Rightarrow> [vm] | None \<Rightarrow> []) else []) @ savedVMs m entries"

definition vms_roundtrip :: "env \<Rightarrow> Manager \<Rightarrow> bool" where
  "vms_roundtrip env m \<longleftrightarrow> (\<forall>k vm. mget (vms m) k = Some vm \<longrightarrow>
     vm_ints_ok vm \<and> yearOk (e_zone env) (CreatedAt vm)) \<and> \<bar>e_zone env\<bar> < 1440"

lemma reconcileLoop_saved:
  assumes "disk_holds env m t0 es" "vms_roundtrip env m" "set entries \<subseteq> set es" "m_cfg m0 = m_cfg m"
    "extends isRead t0 tr"
  shows "fst (reconcileLoop env entries m0 tr) = fold withVM (savedVMs m entries) m0"
  using assms(3-)
proof (induction entries arbitrary: m0 tr)
  case (Cons e entries)
  obtain name isDir where e: "e = (name, isDir)" by (cases e)
  let ?file = "e_readFile env tr (Join [VMStateDir (m_cfg m), name, ''meta.json''])"
  have IH: "fst (reconcileLoop env entries m1 t) = fold withVM (savedVMs m entries) m1"
    if "m_cfg m1 = m_cfg m" "extends isRead t0 t" for m1 t
    using Cons.IH Cons.prems(1) that by simp
  have read: "extends isRead t0 (tr @ [(ReadFile p, r)])" for p r
    using Cons.prems(3) by (rule extends_snoc) simp
  show ?case
  proof (cases isDir)
    case True
    note disk = assms(1) [unfolded disk_holds_def, THEN conjunct2, THEN conjunct2, rule_format, OF _ Cons.prems(3), of name]
    show ?thesis
    proof (cases "mget (vms m) name")
      case None
      with disk True Cons.prems(1) e obtain x where "?file = Inl x" by auto
      with True None Cons.prems(2) show ?thesis by (simp add: e readFile_def Let_def IH read)
    next
      case (Some vm)
      with disk True Cons.prems(1) e obtain data where data: "marshalVM env vm = Inr data" "?file = Inr data"
        by auto
      moreover have "unmarshalVM data = Some vm"
        using marshal_inverse assms(2) Some data(1) by (fastforce simp: vms_roundtrip_def)
      ultimately show ?thesis
        using True Some Cons.prems(2) by (simp add: e readFile_def Let_def IH read withVM_def [of vm m0])
    qed
  qed (use Cons.prems(2,3) in \<open>simp add: e IH\<close>)
qed simp

text \<open>A manager that holds some of the VMs of \<open>m\<close> and exactly their slots.\<close>

definition part_of :: "Manager \<Rightarrow> Manager \<Rightarrow> bool" where
  "part_of m m' \<longleftrightarrow> m_cfg m' = m_cfg m \<and>
     (\<forall>k vm. mget (vms m') k = Some vm \<longrightarrow> mget (vms m) k = Some vm) \<and>
     (\<forall>s k. mget (slots m') s = Some k \<longleftrightarrow> (\<exists>vm. mget (vms m') k = Some vm \<and> Slot vm = s))"

lemma part_of_withVM:
  assumes "wf_mgr m" "part_of m m'" "mget (vms m) (ID vm) = Some vm"
  shows "part_of m (withVM vm m')"
proof -
  have "mget (vms m') k = Some vm' \<Longrightarrow> Slot vm' = Slot vm \<Longrightarrow> k = ID vm" for k vm'
    using wf_mgr_slots_inj [OF assms(1) _ assms(3)] assms(2) unfolding part_of_def by blast
  moreover have "mget (vms m') (ID vm) = Some vm' \<Longrightarrow> vm' = vm" for vm'
    using assms(2,3) unfolding part_of_def by (metis option.inject)
  ultimately show ?thesis
    using assms(2,3) unfolding part_of_def withVM_def by (auto simp: mget_mput)
qed

lemma part_of_fold:
  assumes "wf_mgr m" "\<forall>vm\<in>set vs. mget (vms m) (ID vm) = Some vm" "part_of m m'"
  shows "part_of m (fold withVM vs m') \<and>
    dom (mget (vms (fold withVM vs m'))) = ID ` set vs \<union> dom (mget (vms m'))"
  using assms(2,3)
proof (induction vs arbitrary: m')
  case (Cons vm vs)
  have "part_of m (withVM vm m')" using Cons.prems by (intro part_of_withVM [OF assms(1)]) simp_all
  from Cons.IH [OF _ this] Cons.prems(1) show ?case
    by (auto simp: withVM_def mget_mput dom_def)
qed simp

lemma set_savedVMs: "vm \<in> set (savedVMs m es) \<longleftrightarrow> (\<exists>k. (k, True) \<in> set es \<and> mget (vms m) k = Some vm)"
proof (induction es)
  case (Cons e es)
  obtain n d where e: "e = (n, d)" by (cases e)
  show ?case
    by (cases "mget (vms m) n"; cases d) (auto simp: e Cons)
qed simp

lemma part_of_all:
  assumes "wf_mgr m" "quiescent m" "part_of m m'" "dom (mget (vms m)) \<subseteq> dom (mget (vms m'))"
  shows "mget (vms m') = mget (vms m)" "mget (slots m') = mget (slots m)"
proof -
  show vms: "mget (vms m') = mget (vms m)"
  proof
    fix k show "mget (vms m') k = mget (vms m) k"
    proof (cases "mget (vms m') k")
      case None
      with assms(4) show ?thesis by (metis domIff subsetD)
    next
      case (Some vm)
      with assms(3) show ?thesis by (simp add: part_of_def)
    qed
  qed
  have same: "mget (slots m) s = Some k \<longleftrightarrow> mget (slots m') s = Some k" for s k
  proof -
    have "mget (slots m') s = Some k \<longleftrightarrow> (\<exists>vm. mget (vms m) k = Some vm \<and> Slot vm = s)"
      using assms(3) by (simp add: part_of_def vms)
    moreover have "mget (slots m) s = Some k \<longleftrightarrow> (\<exists>vm. mget (vms m) k = Some vm \<and> Slot vm = s)"
      using assms(2) wf_mgrD(4) [OF assms(1)] by (auto simp: quiescent_def)
    ultimately show ?thesis by simp
  qed
  show "mget (slots m') = mget (slots m)"
  proof
    fix s show "mget (slots m') s = mget (slots m) s"
      using same [of s] by (metis not_None_eq)
  qed
qed

lemma New_restores:
  assumes "wf_mgr m" "quiescent m" "disk_holds env m tr entries" "vms_roundtrip env m"
  shows "\<exists>m' tr'. New env (m_cfg m) tr = (Inr m', tr') \<and> m_cfg m' = m_cfg m \<and>
    mget (vms m') = mget (vms m) \<and> mget (slots m') = mget (slots m)"
proof -
  let ?e = "emptyManager (m_cfg m)" and ?tr = "tr @ [(ReadDir (VMStateDir (m_cfg m)), None)]"
  obtain m' tr' where loop: "reconcileLoop env entries ?e ?tr = (m', tr')" by (metis surj_pair)
  have m': "m' = fold withVM (savedVMs m entries) ?e"
    using reconcileLoop_saved [OF assms(3,4) subset_refl, of ?e ?tr] loop
    by (simp add: emptyManager_def extends_one)
  have saved: "\<forall>vm\<in>set (savedVMs m entries). mget (vms m) (ID vm) = Some vm"
    using wf_mgrD(3) [OF assms(1)] by (auto simp: set_savedVMs)
  have "part_of m ?e" by (simp add: part_of_def emptyManager_def)
  note part = part_of_fold [OF assms(1) saved this, folded m']
  have "dom (mget (vms m)) \<subseteq> dom (mget (vms m'))"
  proof
    fix k assume "k \<in> dom (mget (vms m))"
    then obtain vm where vm: "mget (vms m) k = Some vm" and "(k, True) \<in> set entries"
      using assms(3) unfolding disk_holds_def by blast
    then have "vm \<in> set (savedVMs m entries)" by (auto simp: set_savedVMs)
    with part wf_mgrD(3) [OF assms(1) vm] show "k \<in> dom (mget (vms m'))" by blast
  qed
  with part part_of_all [OF assms(1,2)] have "m_cfg m' = m_cfg m" "mget (vms m') = mget (vms m)"
    "mget (slots m') = mget (slots m)" by (auto simp: part_of_def)
  moreover have "New env (m_cfg m) tr = (Inr m', tr')"
    using assms(3) loop by (simp add: New_def reconcile_def readDir_def Let_def disk_holds_def emptyManager_def)
  ultimately show ?thesis by blast
qed

text \<open>
  After a restart of the agent, \<open>New\<close> rebuilds from the state directory the table of VMs and
  the table of slots the agent had before it went down, whatever else lies in that directory.
\<close>

theorem restart_restores:
  assumes "wf_mgr m" "quiescent m" "disk_holds env m tr entries" "vms_roundtrip env m"
  shows "\<exists>m' tr'. New env (m_cfg m) tr = (Inr m', tr') \<and> m_cfg m' = m_cfg m \<and>
    mget (vms m') = mget (vms m) \<and> mget (slots m') = mget (slots m)"
  by (rule New_restores [OF assms])

definition saved_env :: env where
  "saved_env = calm\<lparr>e_readDir := \<lambda>_ _. Inr [(''lost+found'', True), (''vm_1'', True), (''notes'', False)],
     e_readFile := \<lambda>_ p. if p = Join [''/vms'', ''vm_1'', ''meta.json''] then Inr (Doc (encodeVM 0 example_vm))
       else Inl NotExist\<rparr>"

theorem restart_restores_witness:
  "\<exists>m' tr'. New saved_env example_cfg [] = (Inr m', tr') \<and> mget (vms m') ''vm_1'' = Some example_vm \<and>
     mget (slots m') 0 = Some ''vm_1''"
proof -
  let ?m = "withVM example_vm (emptyManager example_cfg)"
  have get: "mget (vms ?m) k = (if k = ''vm_1'' then Some example_vm else None)"
      "mget (slots ?m) j = (if j = 0 then Some ''vm_1'' else None)" for k j
    by (simp_all add: withVM_def emptyManager_def example_vm_def)
  have cfg: "m_cfg ?m = example_cfg" "VMStateDir example_cfg = ''/vms''"
    by (simp_all add: withVM_def emptyManager_def example_cfg_def)
  have wf: "wf_mgr ?m" "quiescent ?m"
    by (rule wf_withVM [OF empty_wf(1)] quiescent_withVM [OF empty_wf(2)];
        simp add: example_vm_def emptyManager_def)+
  have year: "yearOk 0 (CreatedAt example_vm)"
    by (simp add: example_vm_def yearOk_def localDay_def epochDay_def daysBeforeYear_def)
  have "Join [''/vms'', ''lost+found'', ''meta.json''] \<noteq> Join [''/vms'', ''vm_1'', ''meta.json'']"
    by code_simp
  with year have disk: "disk_holds saved_env ?m [] [(''lost+found'', True), (''vm_1'', True), (''notes'', False)]"
    by (auto simp: disk_holds_def get cfg saved_env_def marshalVM_def calm_def split: if_splits)
  have "vms_roundtrip saved_env ?m"
    using year by (simp add: vms_roundtrip_def get saved_env_def calm_def)
      (simp add: example_vm_def vm_ints_ok_def is_i64_def)
  from restart_restores [OF wf disk this] show ?thesis
    by (auto simp: cfg get)
qed

section \<open>Wrap-around\<close>

text \<open>
  The admission check adds without looking for overflow: beside one running VM a request for
  \<open>2^63 - 1\<close> CPUs wraps to a negative sum and is admitted on a host with four CPUs.
\<close>

theorem admission_overflow:
  "\<exists>vm m' tr'. createLocked host ''team'' 60 (2 ^ 63 - 1) 512 (withVM example_vm (emptyManager example_cfg)) [] =
     (Inr vm, m', tr') \<and> Vcpu vm = 2 ^ 63 - 1 \<and> capacityCPU host = 4"
proof -
  let ?m = "withVM example_vm (emptyManager example_cfg)"
  have used: "usedCPULocked ?m = 2" "usedRAMMbLocked ?m = 4096" "slots ?m = [(0, ''vm_1'')]" "m_cfg ?m = example_cfg"
    by (simp_all add: usedCPULocked_def usedRAMMbLocked_def withVM_def emptyManager_def example_vm_def i64_def)
  have "snd (freeSlot host ?m)"
    by (simp add: freeSlot_def used host_capacity freeSlotLoop.simps)
  moreover have "admitted host ?m [] (2 ^ 63 - 1) 512"
    using host_ram [of ?m "[]"] by (simp add: admitted_def used host_capacity i64_def)
  ultimately show ?thesis by (simp add: createLocked_cases Let_def host_capacity)
qed

text \<open>
  Up to 153722867 minutes a VM expires exactly the asked-for number of minutes after it
  was created; for the next 153722867 values the conversion to nanoseconds wraps and the VM is
  born expired, so that the next reaper round destroys it.
\<close>

theorem ttl_minutes:
  assumes "createLocked env teamID ttl vcpu ramMb m tr = (Inr vm, m', tr')" "0 < ttl"
  shows "(ttl \<le> 153722867 \<longrightarrow> ExpiresAt vm = CreatedAt vm + ttl * 60000000000) \<and>
    (153722867 < ttl \<and> ttl \<le> 2 * 153722867 \<longrightarrow> ExpiresAt vm < CreatedAt vm)"
proof -
  have vm: "CreatedAt vm = e_now env (tr @ [(TimeNow, None)])" "TTL vm = i64 (ttl * time_Minute)"
    using assms(1) by (auto simp: createLocked_cases reserved_def Let_def split: if_splits)
  have "i64 (ttl * 60000000000) = ttl * 60000000000" if "ttl \<le> 153722867"
    using that assms(2) by (intro i64_nonneg_less) simp_all
  moreover have "i64 (ttl * 60000000000) < 0" if "153722867 < ttl" "ttl \<le> 2 * 153722867"
  proof -
    have "is_i64 (ttl * 60000000000 - 2 ^ 64)" using that by (simp add: is_i64_def)
    then have "i64 (ttl * 60000000000) = ttl * 60000000000 - 2 ^ 64"
      using i64_id i64_shift by metis
    with that show ?thesis by simp
  qed
  ultimately show ?thesis by (simp add: ExpiresAt_def vm time_Minute_def)
qed

theorem ttl_minutes_witness:
  "\<exists>vm m' tr'. createLocked host ''team'' 60 2 4096 (emptyManager example_cfg) [] = (Inr vm, m', tr') \<and>
     ExpiresAt vm = CreatedAt vm + 3600000000000"
proof -
  have "admitted host (emptyManager example_cfg) [] 2 4096"
    by (subst admitted_iff) (simp_all add: empty_wf no_wrap_def host_capacity)
  then obtain vm m' tr' where run:
    "createLocked host ''team'' 60 2 4096 (emptyManager example_cfg) [] = (Inr vm, m', tr')"
    by (simp add: createLocked_cases Let_def empty_freeSlot host_capacity)
  from ttl_minutes [OF run] run show ?thesis by simp
qed

end
