(* ===== verification/Manager_Concurrent.thy ===== *)
theory Manager_Concurrent
  imports Lifecycle
begin

text \<open>
  The manager under concurrent requests. The API serves every request on a goroutine of its own
  and the reaper runs beside them; \<open>m.mu\<close> makes each critical section atomic, and between the
  critical sections of one \<open>Create\<close> or \<open>Destroy\<close> those of others may run. A step of the
  relation below is one critical section of \<open>manager.go\<close>, the same definition that the sequential
  operations are made of; the work outside the lock (rootfs, \<open>Boot\<close>, \<open>Stop\<close>, clean-up)
  lies between two steps, and may succeed or fail.
\<close>

section \<open>Interleavings\<close>

text \<open>
  The shared state: the manager, the calls made so far, the VMs whose \<open>Create\<close> is between its two
  critical sections, and the VMs that a \<open>Destroy\<close> has looked up and not yet removed.
\<close>

record conc =
  c_mgr :: Manager
  c_trace :: trace
  booting :: "VM list"
  stopping :: "(string \<times> VM) list"

definition conc_init :: "Config \<Rightarrow> conc" where
  "conc_init cfg = \<lparr>c_mgr = emptyManager cfg, c_trace = [], booting = [], stopping = []\<rparr>"

inductive cstep :: "env \<Rightarrow> conc \<Rightarrow> conc \<Rightarrow> bool" for env where
  outside: "cstep env s (s\<lparr>c_trace := c_trace s @ ev\<rparr>)"
| createBegin: "0 < vcpu \<Longrightarrow> 0 < ramMb \<Longrightarrow>
    createLocked env teamID ttl vcpu ramMb (c_mgr s) (c_trace s) = (Inr vm, m', tr') \<Longrightarrow>
    cstep env s (s\<lparr>c_mgr := m', c_trace := tr', booting := vm # booting s\<rparr>)"
| createFail: "vm \<in> set (booting s) \<Longrightarrow>
    cstep env s (s\<lparr>c_mgr := releaseSlot (Slot vm) (c_mgr s), booting := remove1 vm (booting s)\<rparr>)"
| createDone: "vm \<in> set (booting s) \<Longrightarrow> d \<noteq> [] \<Longrightarrow> vm' = vm\<lparr>DockerEndpoint := d, Pid := p\<rparr> \<Longrightarrow>
    cstep env s (s\<lparr>c_mgr := commitVM vm' (c_mgr s), booting := remove1 vm (booting s)\<rparr>)"
| destroyBegin: "mget (vms (c_mgr s)) k = Some vm \<Longrightarrow> cstep env s (s\<lparr>stopping := (k, vm) # stopping s\<rparr>)"
| destroyFail: "(k, vm) \<in> set (stopping s) \<Longrightarrow> cstep env s (s\<lparr>stopping := remove1 (k, vm) (stopping s)\<rparr>)"
| destroyDone: "(k, vm) \<in> set (stopping s) \<Longrightarrow>
    cstep env s (s\<lparr>c_mgr := destroyLocked k vm (c_mgr s), stopping := remove1 (k, vm) (stopping s)\<rparr>)"

inductive_cases cstepE: "cstep env s s'"

text \<open>The runs all of whose states satisfy \<open>P\<close>.\<close>

inductive conc_run :: "env \<Rightarrow> (conc \<Rightarrow> bool) \<Rightarrow> Config \<Rightarrow> conc \<Rightarrow> bool" for env P cfg where
  init: "conc_run env P cfg (conc_init cfg)"
| step: "conc_run env P cfg s \<Longrightarrow> cstep env s s' \<Longrightarrow> P s' \<Longrightarrow> conc_run env P cfg s'"

text \<open>
  The ids made from the clock are distinct: those of VMs being booted from each other and from those
  in the table.
\<close>

definition fresh_ids :: "conc \<Rightarrow> bool" where
  "fresh_ids s \<longleftrightarrow> distinct (map ID (booting s)) \<and>
     (\<forall>vm\<in>set (booting s). mget (vms (c_mgr s)) (ID vm) = None)"

definition one_destroy :: "conc \<Rightarrow> bool" where
  "one_destroy s \<longleftrightarrow> distinct (map fst (stopping s))"

section \<open>Slots stay exclusive while no VM is destroyed twice at once\<close>

definition conc_inv :: "conc \<Rightarrow> bool" where
  "conc_inv s \<longleftrightarrow> wf_mgr (c_mgr s) \<and> fresh_ids s \<and> one_destroy s \<and>
     (\<forall>vm\<in>set (booting s). mget (slots (c_mgr s)) (Slot vm) = Some (ID vm) \<and> 0 < Vcpu vm \<and> 0 < RamMb vm) \<and>
     (\<forall>(k, vm)\<in>set (stopping s). mget (vms (c_mgr s)) k = Some vm)"

lemma conc_invD:
  assumes "conc_inv s"
  shows "wf_mgr (c_mgr s)" "distinct (map ID (booting s))" "distinct (map fst (stopping s))"
    "vm \<in> set (booting s) \<Longrightarrow> mget (vms (c_mgr s)) (ID vm) = None"
    "vm \<in> set (booting s) \<Longrightarrow> mget (slots (c_mgr s)) (Slot vm) = Some (ID vm)"
    "vm \<in> set (booting s) \<Longrightarrow> 0 < Vcpu vm" "vm \<in> set (booting s) \<Longrightarrow> 0 < RamMb vm"
    "(k, vm) \<in> set (stopping s) \<Longrightarrow> mget (vms (c_mgr s)) k = Some vm"
  using assms by (auto simp: conc_inv_def fresh_ids_def one_destroy_def)

lemma booting_slot_neq:
  assumes "conc_inv s" "vm \<in> set (booting s)" "mget (vms (c_mgr s)) k = Some vm'"
  shows "Slot vm' \<noteq> Slot vm" "k \<noteq> ID vm"
  using conc_invD(4,5) [OF assms(1,2)] wf_mgrD(4) [OF conc_invD(1) [OF assms(1)] assms(3)] assms(3) by auto

lemma remove1_map_distinct: "distinct (map f xs) \<Longrightarrow> x \<in> set xs \<Longrightarrow> y \<in> set (remove1 x xs) \<Longrightarrow> f y \<noteq> f x \<and> y \<in> set xs"
  by (induction xs) (auto split: if_splits, metis image_eqI)

lemma distinct_map_remove1: "distinct (map f xs) \<Longrightarrow> distinct (map f (remove1 x xs))"
  using set_remove1_subset by (induction xs) fastforce+

lemma inv_createBegin:
  assumes "conc_inv s" "0 < vcpu" "0 < ramMb"
    "createLocked env teamID ttl vcpu ramMb (c_mgr s) (c_trace s) = (Inr vm, m', tr')"
    and "s' = s\<lparr>c_mgr := m', c_trace := tr', booting := vm # booting s\<rparr>" "fresh_ids s'"
  shows "conc_inv s'"
proof -
  have vm: "vm = reserved env teamID ttl vcpu ramMb (fst (freeSlot env (c_mgr s))) (c_trace s)"
    and m': "m' = (c_mgr s)\<lparr>slots := mput (Slot vm) (ID vm) (slots (c_mgr s))\<rparr>"
    and free: "mget (slots (c_mgr s)) (Slot vm) = None"
    using assms(4) freeSlot_free [of env "c_mgr s"] by (auto simp: createLocked_cases Let_def split: if_splits)
  note inv = conc_invD [OF assms(1)]
  have "Slot vm' \<noteq> Slot vm" if "mget (vms (c_mgr s)) k = Some vm'" for k vm'
    using wf_mgrD(4) [OF inv(1) that] free by auto
  with wf_mgrD [OF inv(1)] have "wf_mgr m'" by (simp add: wf_mgr_def m' mget_mput)
  moreover have "Slot vm' \<noteq> Slot vm" if "vm' \<in> set (booting s)" for vm'
    using inv(5) [OF that] free by auto
  moreover have "0 < Vcpu vm" "0 < RamMb vm" using assms(2,3) by (simp_all add: vm)
  ultimately show ?thesis
    using inv assms(6) by (auto simp: conc_inv_def one_destroy_def assms(5) m' mget_mput)
qed

lemma inv_createFail:
  assumes "conc_inv s" "vm \<in> set (booting s)"
    and "s' = s\<lparr>c_mgr := releaseSlot (Slot vm) (c_mgr s), booting := remove1 vm (booting s)\<rparr>" "fresh_ids s'"
  shows "conc_inv s'"
proof -
  note inv = conc_invD [OF assms(1)]
  have "wf_mgr (releaseSlot (Slot vm) (c_mgr s))"
    using wf_mgrD [OF inv(1)] booting_slot_neq(1) [OF assms(1,2)]
    by (simp add: wf_mgr_def releaseSlot_def mget_mdel)
  moreover have "mget (slots (releaseSlot (Slot vm) (c_mgr s))) (Slot vm') = Some (ID vm')"
    if "vm' \<in> set (remove1 vm (booting s))" for vm'
  proof -
    have "ID vm' \<noteq> ID vm" "vm' \<in> set (booting s)"
      using remove1_map_distinct [OF inv(2) assms(2) that] by auto
    with inv(5) [OF assms(2)] inv(5) [of vm'] show ?thesis by (auto simp: releaseSlot_def mget_mdel)
  qed
  ultimately show ?thesis
    using inv assms(4) set_remove1_subset [of vm "booting s"]
    by (auto simp: conc_inv_def one_destroy_def assms(3) releaseSlot_def)
qed

lemma inv_createDone:
  assumes "conc_inv s" "vm \<in> set (booting s)" "vm' = vm\<lparr>DockerEndpoint := d, Pid := p\<rparr>"
    and "s' = s\<lparr>c_mgr := commitVM vm' (c_mgr s), booting := remove1 vm (booting s)\<rparr>" "fresh_ids s'"
  shows "conc_inv s'"
proof -
  note inv = conc_invD [OF assms(1)]
  have "wf_mgr (commitVM vm' (c_mgr s))"
    using wf_mgrD [OF inv(1)] inv(5-7) [OF assms(2)]
    by (auto simp: wf_mgr_def commitVM_def mget_mput assms(3))
  moreover have "k \<noteq> ID vm" if "(k, v) \<in> set (stopping s)" for k v
    using booting_slot_neq(2) [OF assms(1,2) inv(8) [OF that]] .
  ultimately show ?thesis
    using inv assms(5) set_remove1_subset [of vm "booting s"]
    by (fastforce simp: conc_inv_def one_destroy_def assms(3,4) commitVM_def mget_mput)
qed

lemma inv_destroyDone:
  assumes "conc_inv s" "(k, vm) \<in> set (stopping s)"
    and "s' = s\<lparr>c_mgr := destroyLocked k vm (c_mgr s), stopping := remove1 (k, vm) (stopping s)\<rparr>"
  shows "conc_inv s'"
proof -
  note inv = conc_invD [OF assms(1)]
  note vm = inv(8) [OF assms(2)]
  have "mget (slots (destroyLocked k vm (c_mgr s))) (Slot vm') = Some (ID vm')" if "vm' \<in> set (booting s)" for vm'
    using inv(5) [OF that] booting_slot_neq(1) [OF assms(1) that vm] by (simp add: destroyLocked_def mget_mdel)
  moreover have "mget (vms (destroyLocked k vm (c_mgr s))) k' = Some v"
    if "(k', v) \<in> set (remove1 (k, vm) (stopping s))" for k' v
    using remove1_map_distinct [OF inv(3) assms(2) that] inv(8) [of k' v] by (auto simp: destroyLocked_def mget_mdel)
  ultimately show ?thesis
    using inv wf_destroyLocked [OF inv(1) vm] distinct_map_remove1 [OF inv(3)]
    by (auto simp: conc_inv_def fresh_ids_def one_destroy_def assms(3))
      (auto simp: destroyLocked_def mget_mdel)
qed

lemma cstep_inv:
  assumes "conc_inv s" "cstep env s s'" "fresh_ids s'" "one_destroy s'"
  shows "conc_inv s'"
  using assms(2)
proof cases
  case (outside ev)
  then show ?thesis using assms(1) by (auto simp: conc_inv_def fresh_ids_def one_destroy_def)
next
  case createBegin
  then show ?thesis using inv_createBegin [OF assms(1)] assms(3) by blast
next
  case createFail
  then show ?thesis using inv_createFail [OF assms(1)] assms(3) by blast
next
  case createDone
  then show ?thesis using inv_createDone [OF assms(1)] assms(3) by blast
next
  case destroyBegin
  then show ?thesis using assms(1,4) by (auto simp: conc_inv_def fresh_ids_def)
next
  case (destroyFail k vm)
  then show ?thesis
    using assms(1,4) set_remove1_subset [of "(k, vm)" "stopping s"] by (fastforce simp: conc_inv_def fresh_ids_def)
next
  case destroyDone
  then show ?thesis using inv_destroyDone [OF assms(1)] by blast
qed

lemma conc_run_inv:
  "conc_run env (\<lambda>s. fresh_ids s \<and> one_destroy s) cfg s \<Longrightarrow> conc_inv s"
proof (induction rule: conc_run.induct)
  case init
  show ?case
    by (simp add: conc_inv_def conc_init_def fresh_ids_def one_destroy_def empty_wf)
next
  case (step s s')
  then show ?case using cstep_inv by blast
qed

text \<open>
  C13. Under every interleaving of requests in which ids do not clash and no VM is destroyed by two
  callers at once, a slot belongs to at most one VM, among those in the table and those
  still being booted; so no two of them share a tap device, an address or a Docker port.
\<close>

theorem concurrent_slots_exclusive:
  assumes "conc_run env (\<lambda>s. fresh_ids s \<and> one_destroy s) cfg s"
    and "vm \<in> set (booting s) \<or> mget (vms (c_mgr s)) (ID vm) = Some vm"
    and "vm' \<in> set (booting s) \<or> mget (vms (c_mgr s)) (ID vm') = Some vm'"
    and "Slot vm = Slot vm'"
  shows "ID vm = ID vm' \<and> mget (slots (c_mgr s)) (Slot vm) = Some (ID vm)"
proof -
  have inv: "conc_inv s" by (rule conc_run_inv [OF assms(1)])
  have "mget (slots (c_mgr s)) (Slot v) = Some (ID v)"
    if "v \<in> set (booting s) \<or> mget (vms (c_mgr s)) (ID v) = Some v" for v
    using that conc_invD(5) [OF inv] wf_mgrD(4) [OF conc_invD(1) [OF inv]] by blast
  from this [OF assms(2)] this [OF assms(3)] assms(4) show ?thesis by simp
qed

section \<open>The budgets by the number of creates that overlap\<close>

text \<open>At most \<open>n\<close> calls of \<open>Create\<close> are between their critical sections, each for less than \<open>2^62\<close> of each.\<close>

definition overlap :: "nat \<Rightarrow> conc \<Rightarrow> bool" where
  "overlap n s \<longleftrightarrow> length (booting s) \<le> n \<and> (\<forall>vm\<in>set (booting s). Vcpu vm < 2 ^ 62 \<and> RamMb vm < 2 ^ 62)"

definition budget_inv :: "env \<Rightarrow> Config \<Rightarrow> int \<Rightarrow> nat \<Rightarrow> conc \<Rightarrow> bool" where
  "budget_inv env cfg R n s \<longleftrightarrow> m_cfg (c_mgr s) = cfg \<and>
     cpuSum (c_mgr s) + (\<Sum>vm\<leftarrow>booting s. Vcpu vm) \<le> int n * capacityCPU env \<and>
     ramSum (c_mgr s) + (\<Sum>vm\<leftarrow>booting s. RamMb vm) \<le> int n * R \<and>
     (\<forall>vm\<in>set (booting s). Vcpu vm \<le> capacityCPU env \<and> RamMb vm \<le> R)"

lemma sum_list_le_length:
  fixes f :: "'a \<Rightarrow> int"
  shows "\<forall>x\<in>set xs. f x \<le> b \<Longrightarrow> (\<Sum>x\<leftarrow>xs. f x) \<le> int (length xs) * b"
  by (induction xs) (auto simp: algebra_simps)

lemma sums_slots [simp]: "cpuSum (m\<lparr>slots := x\<rparr>) = cpuSum m" "ramSum (m\<lparr>slots := x\<rparr>) = ramSum m"
  by (simp_all add: cpuSum_def ramSum_def)

lemma sums_commitVM:
  assumes "wf_mgr m" "mget (vms m) (ID vm) = None"
  shows "cpuSum (commitVM vm m) = cpuSum m + Vcpu vm" "ramSum (commitVM vm m) = ramSum m + RamMb vm"
  using gm.sum_insert_fresh [OF wf_mgrD(1) [OF assms(1)] assms(2)]
  by (simp_all add: cpuSum_def ramSum_def commitVM_def)

lemma budget_createBegin:
  assumes "conc_inv s" "budget_inv env cfg R n s" "0 < vcpu" "0 < ramMb"
    "0 \<le> capacityCPU env" "int n * capacityCPU env \<le> 2 ^ 62" "0 \<le> R" "int n * R \<le> 2 ^ 62"
    "createLocked env teamID ttl vcpu ramMb (c_mgr s) (c_trace s) = (Inr vm, m', tr')"
    "capacityRAMMb env (c_mgr s) (c_trace s) = R" "s' = s\<lparr>c_mgr := m', c_trace := tr', booting := vm # booting s\<rparr>"
    "overlap n s'"
  shows "budget_inv env cfg R n s'"
proof -
  let ?cpu = "\<Sum>vm\<leftarrow>booting s. Vcpu vm" and ?ram = "\<Sum>vm\<leftarrow>booting s. RamMb vm"
  note inv = conc_invD [OF assms(1)]
  have vm: "Vcpu vm = vcpu" "RamMb vm = ramMb" and adm: "admitted env (c_mgr s) (c_trace s) vcpu ramMb"
    and m': "m' = (c_mgr s)\<lparr>slots := mput (Slot vm) (ID vm) (slots (c_mgr s))\<rparr>"
    using assms(9) by (auto simp: createLocked_cases Let_def split: if_splits)
  have few: "1 + int (length (booting s)) \<le> int n" "vcpu < 2 ^ 62" "ramMb < 2 ^ 62"
    using assms(11,12) vm by (auto simp: overlap_def)
  have nonneg: "0 \<le> ?cpu" "0 \<le> ?ram"
    using inv(6,7) by (force intro!: sum_list_nonneg)+
  then have "no_wrap (c_mgr s) vcpu ramMb"
    using assms(2,6,8) few by (simp add: no_wrap_def budget_inv_def)
  from admitted_iff [OF inv(1) this assms(3,4)] adm assms(10)
  have fits: "cpuSum (c_mgr s) + vcpu \<le> capacityCPU env" "ramSum (c_mgr s) + ramMb \<le> R" by simp_all
  have "?cpu \<le> int (length (booting s)) * capacityCPU env" "?ram \<le> int (length (booting s)) * R"
    using assms(2) by (auto simp: budget_inv_def intro!: sum_list_le_length)
  then have "cpuSum (c_mgr s) + vcpu + ?cpu \<le> (1 + int (length (booting s))) * capacityCPU env"
      "ramSum (c_mgr s) + ramMb + ?ram \<le> (1 + int (length (booting s))) * R"
    using fits by (simp_all add: algebra_simps)
  moreover have "(1 + int (length (booting s))) * capacityCPU env \<le> int n * capacityCPU env"
      "(1 + int (length (booting s))) * R \<le> int n * R"
    using few(1) assms(5,7) by (auto intro: mult_right_mono)
  ultimately show ?thesis
    using assms(2) fits sums_nonneg [OF inv(1)] by (simp add: budget_inv_def assms(11) m' vm)
qed

lemma budget_step:
  assumes "conc_inv s" "cstep env s s'" "budget_inv env cfg R n s" "overlap n s'"
    and "0 \<le> capacityCPU env" "int n * capacityCPU env \<le> 2 ^ 62" "0 \<le> R" "int n * R \<le> 2 ^ 62"
    and "\<And>tr m. m_cfg m = cfg \<Longrightarrow> capacityRAMMb env m tr = R"
  shows "budget_inv env cfg R n s'"
  using assms(2)
proof cases
  case (createBegin vcpu ramMb teamID ttl vm m' tr')
  have "capacityRAMMb env (c_mgr s) (c_trace s) = R"
    by (rule assms(9)) (use assms(3) in \<open>simp add: budget_inv_def\<close>)
  from budget_createBegin [OF assms(1,3) createBegin(2,3) assms(5-8) createBegin(4) this createBegin(1) assms(4)]
  show ?thesis .
next
  case (createFail vm)
  then show ?thesis
    using assms(3) conc_invD(6,7) [OF assms(1)] set_remove1_subset [of vm "booting s"]
    by (fastforce simp: budget_inv_def releaseSlot_def sum_list_map_remove1 [of vm "booting s"])
next
  case (createDone vm d vm' p)
  then show ?thesis
    using assms(3) sums_commitVM [OF conc_invD(1) [OF assms(1)], of vm'] conc_invD(4) [OF assms(1)]
      set_remove1_subset [of vm "booting s"]
    by (auto simp: budget_inv_def sum_list_map_remove1 [of vm "booting s"]) (simp_all add: commitVM_def)
next
  case (destroyDone k vm)
  have vm: "mget (vms (c_mgr s)) k = Some vm" by (rule conc_invD(8) [OF assms(1) destroyDone(2)])
  note wf = conc_invD(1) [OF assms(1)]
  from sums_destroyLocked [OF wf vm] wf_mgrD(5,6) [OF wf vm] assms(3) show ?thesis
    by (simp add: budget_inv_def destroyDone(1)) (simp add: destroyLocked_def)
qed (use assms(3) in \<open>simp_all add: budget_inv_def\<close>)

lemma conc_run_budget:
  assumes "conc_run env (\<lambda>s. fresh_ids s \<and> one_destroy s \<and> overlap n s) cfg s"
    and "0 \<le> capacityCPU env" "int n * capacityCPU env \<le> 2 ^ 62" "0 \<le> R" "int n * R \<le> 2 ^ 62"
    "\<And>tr m. m_cfg m = cfg \<Longrightarrow> capacityRAMMb env m tr = R"
  shows "conc_inv s \<and> budget_inv env cfg R n s"
  using assms(1)
proof (induction rule: conc_run.induct)
  case init
  show ?case
    using assms(2,4)
    by (simp add: conc_inv_def budget_inv_def conc_init_def fresh_ids_def one_destroy_def empty_wf)
      (simp add: emptyManager_def)
next
  case (step s s')
  then show ?case using cstep_inv budget_step assms(2-6) by blast
qed

text \<open>
  C14. How far concurrent requests can exceed the budgets: in every interleaving with any number of
  destroys in which at most \<open>n\<close> creates at a time are between their admission and their end, the CPUs and
  the memory of the VMs in the table and of those being booted together stay within \<open>n\<close> times the
  host's. With one \<open>Create\<close> at a time nothing is committed twice. Ids are fresh, no VM is destroyed twice at once, and \<open>n\<close> times the host is within \<open>2^62\<close>.
\<close>

theorem overlapping_creates_bound:
  assumes "conc_run env (\<lambda>s. fresh_ids s \<and> one_destroy s \<and> overlap n s) cfg s"
    and "0 \<le> capacityCPU env" "int n * capacityCPU env \<le> 2 ^ 62" "0 \<le> R" "int n * R \<le> 2 ^ 62"
    "\<And>tr m. m_cfg m = cfg \<Longrightarrow> capacityRAMMb env m tr = R"
  shows "cpuSum (c_mgr s) + (\<Sum>vm\<leftarrow>booting s. Vcpu vm) \<le> int n * capacityCPU env \<and>
    ramSum (c_mgr s) + (\<Sum>vm\<leftarrow>booting s. RamMb vm) \<le> int n * R"
  using conc_run_budget [OF assms] by (simp add: budget_inv_def)

section \<open>A run on a host with four CPUs\<close>

lemma host_createLocked:
  assumes "0 \<le> usedCPULocked m" "0 < v" "usedCPULocked m + v \<le> 4" "0 \<le> usedRAMMbLocked m"
    "usedRAMMbLocked m \<le> 4096" "m_cfg m = example_cfg" "mget (slots m) 0 = None \<or> mget (slots m) 1 = None"
  shows "createLocked host ''team'' 60 v 512 m tr =
    (let vm = reserved host ''team'' 60 v 512 (if mget (slots m) 0 = None then 0 else 1) tr in
     (Inr vm, m\<lparr>slots := mput (Slot vm) (ID vm) (slots m)\<rparr>, tr @ [(TimeNow, None), (TimeNow, None)]))"
proof -
  have "i64 (usedCPULocked m + v) = usedCPULocked m + v" "i64 (usedRAMMbLocked m + 512) = usedRAMMbLocked m + 512"
    using assms(1-5) by (auto intro!: i64_nonneg_less)
  with assms(3,5) have "admitted host m tr v 512"
    using host_ram [OF assms(6), of tr] by (simp add: admitted_def host_capacity)
  moreover have "freeSlot host m = (if mget (slots m) 0 = None then 0 else 1, True)"
    using assms(7) by (auto simp: freeSlot_def host_capacity freeSlotLoop.simps)
  ultimately show ?thesis by (simp add: createLocked_cases Let_def)
qed

text \<open>The VM made at time \<open>t\<close>, before and after its boot.\<close>

definition ex_vm :: "int \<Rightarrow> int \<Rightarrow> nat \<Rightarrow> VM" where
  "ex_vm v slot t = \<lparr>ID = ''vm_'' @ nat_digits t, TeamID = ''team'', Slot = slot, Vcpu = v, RamMb = 512,
     DockerEndpoint = [], Pid = 0, CreatedAt = int t + 1, TTL = 3600000000000\<rparr>"

definition ex_up :: "VM \<Rightarrow> VM" where
  "ex_up vm = vm\<lparr>DockerEndpoint := ''10.10.0.2:10000'', Pid := 4711\<rparr>"

lemma ex_vm_simps [simp]:
  "ID (ex_vm v slot t) = ''vm_'' @ nat_digits t" "Slot (ex_vm v slot t) = slot" "Vcpu (ex_vm v slot t) = v"
  "RamMb (ex_vm v slot t) = 512" "ID (ex_up vm) = ID vm" "Slot (ex_up vm) = Slot vm" "Vcpu (ex_up vm) = Vcpu vm"
  "RamMb (ex_up vm) = RamMb vm"
  by (simp_all add: ex_vm_def ex_up_def)

lemma ex_vm_eq [simp]: "ex_vm v slot t = ex_vm v' slot' t' \<longleftrightarrow> v = v' \<and> slot = slot' \<and> t = t'"
  by (auto simp: ex_vm_def)

lemma nat_digits_small [simp]:
  "nat_digits 0 = ''0''" "nat_digits 2 = ''2''" "nat_digits 4 = ''4''"
  by (simp_all add: nat_digits.simps)

abbreviation times :: "nat \<Rightarrow> trace" where
  "times n \<equiv> replicate n (TimeNow, None)"

lemma reserved_ex:
  assumes "n < 100"
  shows "reserved host ''team'' 60 v 512 slot (times n) = ex_vm v slot n"
proof -
  have "i64 (int n) = int n" using assms by (intro i64_nonneg_less) auto
  then show ?thesis
    by (simp add: reserved_def ex_vm_def newVMID_def kernel_def calm_def Itoa_def i64_def time_Minute_def)
qed

definition ex_state ::
  "(string, VM) gomap \<Rightarrow> (int, string) gomap \<Rightarrow> nat \<Rightarrow> VM list \<Rightarrow> (string \<times> VM) list \<Rightarrow> conc" where
  "ex_state vs sl n b d = \<lparr>c_mgr = \<lparr>m_cfg = example_cfg, vms = vs, slots = sl\<rparr>, c_trace = times n,
     booting = b, stopping = d\<rparr>"

lemma ex_begin:
  assumes "conc_run host P example_cfg (ex_state vs sl n b d)" "n < 100" "0 < v"
    and "foldl (\<lambda>sum e. i64 (sum + Vcpu (snd e))) 0 vs \<in> {0..4 - v}"
    and "foldl (\<lambda>sum e. i64 (sum + RamMb (snd e))) 0 vs \<in> {0..4096}"
    and "slot = (if mget sl 0 = None then 0 else 1)" "mget sl slot = None"
    and "P (ex_state vs (mput slot (ID (ex_vm v slot n)) sl) (n + 2) (ex_vm v slot n # b) d)"
  shows "conc_run host P example_cfg (ex_state vs (mput slot (ID (ex_vm v slot n)) sl) (n + 2) (ex_vm v slot n # b) d)"
proof -
  let ?m = "\<lparr>m_cfg = example_cfg, vms = vs, slots = sl\<rparr>" and ?vm = "ex_vm v slot n"
  have times: "times n @ [(TimeNow, None), (TimeNow, None)] = times (n + 2)"
    by (simp add: numeral_2_eq_2 replicate_app_Cons_same)
  have "createLocked host ''team'' 60 v 512 ?m (times n) =
      (let vm = reserved host ''team'' 60 v 512 (if mget (slots ?m) 0 = None then 0 else 1) (times n) in
       (Inr vm, ?m\<lparr>slots := mput (Slot vm) (ID vm) (slots ?m)\<rparr>, times n @ [(TimeNow, None), (TimeNow, None)]))"
    using assms(3-7) by (intro host_createLocked) (auto simp: usedCPULocked_def usedRAMMbLocked_def split: if_splits)
  then have "createLocked host ''team'' 60 v 512 ?m (times n) =
      (Inr ?vm, ?m\<lparr>slots := mput slot (ID ?vm) sl\<rparr>, times (n + 2))"
    using assms(6) by (simp add: reserved_ex [OF assms(2)] Let_def times del: ex_vm_simps(1))
  then have "cstep host (ex_state vs sl n b d)
      (ex_state vs sl n b d\<lparr>c_mgr := ?m\<lparr>slots := mput slot (ID ?vm) sl\<rparr>, c_trace := times (n + 2),
        booting := ?vm # booting (ex_state vs sl n b d)\<rparr>)"
    by (intro cstep.createBegin [OF assms(3), where ramMb = 512]) (simp_all add: ex_state_def)
  from conc_run.step [OF assms(1) this] assms(8) show ?thesis by (simp add: ex_state_def)
qed

lemma ex_done:
  assumes "conc_run host P example_cfg (ex_state vs sl n b d)" "vm \<in> set b"
    "P (ex_state (mput (ID vm) (ex_up vm) vs) sl n (remove1 vm b) d)"
  shows "conc_run host P example_cfg (ex_state (mput (ID vm) (ex_up vm) vs) sl n (remove1 vm b) d)"
proof -
  have "cstep host (ex_state vs sl n b d)
      (ex_state vs sl n b d\<lparr>c_mgr := commitVM (ex_up vm) (c_mgr (ex_state vs sl n b d)),
        booting := remove1 vm (booting (ex_state vs sl n b d))\<rparr>)"
    by (rule cstep.createDone [of _ _ "''10.10.0.2:10000''" _ 4711]) (use assms(2) in \<open>simp_all add: ex_state_def ex_up_def\<close>)
  from conc_run.step [OF assms(1) this] assms(3) show ?thesis by (simp add: ex_state_def commitVM_def)
qed

lemma ex_destroyBegin:
  assumes "conc_run host P example_cfg (ex_state vs sl n b d)" "mget vs k = Some vm"
    "P (ex_state vs sl n b ((k, vm) # d))"
  shows "conc_run host P example_cfg (ex_state vs sl n b ((k, vm) # d))"
proof -
  have "cstep host (ex_state vs sl n b d)
      (ex_state vs sl n b d\<lparr>stopping := (k, vm) # stopping (ex_state vs sl n b d)\<rparr>)"
    by (rule cstep.destroyBegin) (use assms(2) in \<open>simp add: ex_state_def\<close>)
  from conc_run.step [OF assms(1) this] assms(3) show ?thesis by (simp add: ex_state_def)
qed

lemma ex_destroyDone:
  assumes "conc_run host P example_cfg (ex_state vs sl n b d)" "(k, vm) \<in> set d"
    "P (ex_state (mdel k vs) (mdel (Slot vm) sl) n b (remove1 (k, vm) d))"
  shows "conc_run host P example_cfg (ex_state (mdel k vs) (mdel (Slot vm) sl) n b (remove1 (k, vm) d))"
proof -
  have "cstep host (ex_state vs sl n b d)
      (ex_state vs sl n b d\<lparr>c_mgr := destroyLocked k vm (c_mgr (ex_state vs sl n b d)),
        stopping := remove1 (k, vm) (stopping (ex_state vs sl n b d))\<rparr>)"
    by (rule cstep.destroyDone) (use assms(2) in \<open>simp add: ex_state_def\<close>)
  from conc_run.step [OF assms(1) this] assms(3) show ?thesis by (simp add: ex_state_def destroyLocked_def)
qed

lemma ex_start: "conc_run host P example_cfg (ex_state [] [] 0 [] [])"
  using conc_run.init [of host P example_cfg] by (simp add: conc_init_def ex_state_def emptyManager_def)

lemma ex_ok:
  "fresh_ids (ex_state vs sl n b d) \<longleftrightarrow> distinct (map ID b) \<and> (\<forall>vm\<in>set b. mget vs (ID vm) = None)"
  "one_destroy (ex_state vs sl n b d) \<longleftrightarrow> distinct (map fst d)"
  by (simp_all add: ex_state_def fresh_ids_def one_destroy_def)

text \<open>
  C38. The CPU and memory of a VM count against the budget only once its boot has finished. Two
  requests for all four CPUs of a host that overlap are both admitted and both succeed,
  although ids do not clash and nothing is destroyed: eight CPUs are committed on four.
\<close>

theorem concurrent_creates_overcommit:
  "\<exists>s. conc_run host (\<lambda>s. fresh_ids s \<and> one_destroy s) example_cfg s \<and> capacityCPU host = 4 \<and>
     cpuSum (c_mgr s) = 8 \<and> booting s = []"
proof -
  let ?P = "\<lambda>s. fresh_ids s \<and> one_destroy s" and ?A = "ex_vm 4 0 0" and ?B = "ex_vm 4 1 2"
  have "conc_run host ?P example_cfg (ex_state [] [(0, ''vm_0'')] 2 [?A] [])"
    using ex_begin [OF ex_start, where v = 4 and slot = 0 and P = ?P] by (simp add: ex_ok numeral_2_eq_2)
  from ex_begin [OF this, where v = 4 and slot = 1]
  have "conc_run host ?P example_cfg (ex_state [] [(0, ''vm_0''), (1, ''vm_2'')] 4 [?B, ?A] [])"
    by (simp add: ex_ok)
  from ex_done [OF this, where vm = ?A] have "conc_run host ?P example_cfg
      (ex_state [(''vm_0'', ex_up ?A)] [(0, ''vm_0''), (1, ''vm_2'')] 4 [?B] [])"
    by (simp add: ex_ok)
  from ex_done [OF this, where vm = ?B] have "conc_run host ?P example_cfg
      (ex_state [(''vm_0'', ex_up ?A), (''vm_2'', ex_up ?B)] [(0, ''vm_0''), (1, ''vm_2'')] 4 [] [])"
    by (simp add: ex_ok)
  then show ?thesis by (intro exI conjI, assumption) (simp_all add: ex_state_def cpuSum_def host_capacity)
qed

text \<open>
  C39. Two callers that destroy the same VM at once, such as the API and the reaper, may break slot
  exclusivity: the second one gives back the slot, by then reused by another VM, and the
  next \<open>Create\<close> puts a second VM into it.
\<close>

theorem double_destroy_shares_slot:
  "\<exists>s vm vm'. conc_run host fresh_ids example_cfg s \<and> booting s = [] \<and> stopping s = [] \<and>
     mget (vms (c_mgr s)) (ID vm) = Some vm \<and> mget (vms (c_mgr s)) (ID vm') = Some vm' \<and>
     ID vm \<noteq> ID vm' \<and> Slot vm = Slot vm'"
proof -
  let ?run = "\<lambda>vs sl n b d. conc_run host fresh_ids example_cfg (ex_state vs sl n b d)"
  let ?A = "ex_vm 1 0 0" and ?B = "ex_vm 1 0 2" and ?C = "ex_vm 1 0 4"
  let ?a = "(''vm_0'', ex_up ?A)" and ?b = "(''vm_2'', ex_up ?B)" and ?c = "(''vm_4'', ex_up ?C)"
  have "?run [] [(0, ''vm_0'')] 2 [?A] []"
    using ex_begin [OF ex_start, where v = 1 and slot = 0 and P = fresh_ids] by (simp add: ex_ok numeral_2_eq_2)
  from ex_done [OF this, where vm = ?A] have "?run [?a] [(0, ''vm_0'')] 2 [] []"
    by (simp add: ex_ok)
  from ex_destroyBegin [OF this] have "?run [?a] [(0, ''vm_0'')] 2 [] [?a]"
    by (simp add: ex_ok)
  from ex_destroyBegin [OF this] have "?run [?a] [(0, ''vm_0'')] 2 [] [?a, ?a]"
    by (simp add: ex_ok)
  from ex_destroyDone [OF this, where k = "''vm_0''" and vm = "ex_up ?A"] have "?run [] [] 2 [] [?a]"
    by (simp add: ex_ok)
  from ex_begin [OF this, where v = 1 and slot = 0] have "?run [] [(0, ''vm_2'')] 4 [?B] [?a]"
    by (simp add: ex_ok)
  from ex_done [OF this, where vm = ?B] have "?run [?b] [(0, ''vm_2'')] 4 [] [?a]"
    by (simp add: ex_ok)
  from ex_destroyDone [OF this, where k = "''vm_0''" and vm = "ex_up ?A"] have "?run [?b] [] 4 [] []"
    by (simp add: ex_ok)
  from ex_begin [OF this, where v = 1 and slot = 0] have "?run [?b] [(0, ''vm_4'')] 6 [?C] []"
    by (simp add: ex_ok i64_def)
  from ex_done [OF this, where vm = ?C] have "?run [?b, ?c] [(0, ''vm_4'')] 6 [] []"
    by (simp add: ex_ok)
  then show ?thesis
    by (intro exI [of _ "ex_state [?b, ?c] [(0, ''vm_4'')] 6 [] []"] exI [of _ "ex_up ?B"] exI [of _ "ex_up ?C"])
      (simp add: ex_state_def)
qed

theorem concurrent_slots_exclusive_witness:
  "\<exists>s. conc_run host (\<lambda>s. fresh_ids s \<and> one_destroy s) example_cfg s \<and> ex_vm 4 1 2 \<in> set (booting s) \<and>
     mget (slots (c_mgr s)) 1 = Some ''vm_2''"
proof -
  let ?P = "\<lambda>s. fresh_ids s \<and> one_destroy s" and ?A = "ex_vm 4 0 0" and ?B = "ex_vm 4 1 2"
  have "conc_run host ?P example_cfg (ex_state [] [(0, ''vm_0'')] 2 [?A] [])"
    using ex_begin [OF ex_start, where v = 4 and slot = 0 and P = ?P] by (simp add: ex_ok numeral_2_eq_2)
  from ex_begin [OF this, where v = 4 and slot = 1]
  have run: "conc_run host ?P example_cfg (ex_state [] [(0, ''vm_0''), (1, ''vm_2'')] 4 [?B, ?A] [])"
    by (simp add: ex_ok)
  have b: "?B \<in> set (booting (ex_state [] [(0, ''vm_0''), (1, ''vm_2'')] 4 [?B, ?A] []))"
    by (simp add: ex_state_def)
  from concurrent_slots_exclusive [OF run disjI1 [OF b] disjI1 [OF b] refl] run b show ?thesis by auto
qed

theorem overlapping_creates_bound_witness:
  "\<exists>s. conc_run host (\<lambda>s. fresh_ids s \<and> one_destroy s \<and> overlap 2 s) example_cfg s \<and>
     booting s = [ex_vm 4 1 2, ex_vm 4 0 0] \<and> cpuSum (c_mgr s) + 8 \<le> 2 * 4"
proof -
  let ?P = "\<lambda>s. fresh_ids s \<and> one_destroy s \<and> overlap 2 s" and ?A = "ex_vm 4 0 0" and ?B = "ex_vm 4 1 2"
  let ?s = "ex_state [] [(0, ''vm_0''), (1, ''vm_2'')] 4 [?B, ?A] []"
  have ov: "overlap k (ex_state vs sl n b d) \<longleftrightarrow> length b \<le> k \<and> (\<forall>vm\<in>set b. Vcpu vm < 2 ^ 62 \<and> RamMb vm < 2 ^ 62)"
    for k vs sl n b d by (simp add: overlap_def ex_state_def)
  have "conc_run host ?P example_cfg (ex_state [] [(0, ''vm_0'')] 2 [?A] [])"
    using ex_begin [OF ex_start, where v = 4 and slot = 0 and P = ?P] by (simp add: ex_ok ov numeral_2_eq_2)
  from ex_begin [OF this, where v = 4 and slot = 1] have run: "conc_run host ?P example_cfg ?s"
    by (simp add: ex_ok ov)
  have "booting ?s = [?B, ?A]" by (simp add: ex_state_def)
  with overlapping_creates_bound [OF run _ _ _ _ host_ram] run show ?thesis
    by (intro exI [of _ ?s]) (simp add: host_capacity)
qed

end
