(* ===== verification/Sequential_Runs.thy ===== *)
theory Sequential_Runs
  imports Manager_Concurrent
begin

text \<open>
  The two models of the manager agree. \<open>Create\<close>, \<open>Destroy\<close> and \<open>ReapExpired\<close> as \<open>Manager\<close> defines them, run one
  after the other, are sequences of the critical sections of \<open>Manager_Concurrent\<close> with the work outside the
  lock between them. The operations are followed over any backend that keeps the contract.
\<close>

section \<open>States between two operations\<close>

text \<open>A state between two operations.\<close>

definition idle :: "Manager \<Rightarrow> trace \<Rightarrow> conc" where
  "idle m tr = \<lparr>c_mgr = m, c_trace = tr, booting = [], stopping = []\<rparr>"

abbreviation well_behaved :: "conc \<Rightarrow> bool" where
  "well_behaved s \<equiv> fresh_ids s \<and> one_destroy s \<and> overlap 1 s"

lemma idle_ok [simp]: "fresh_ids (idle m tr)" "one_destroy (idle m tr)" "overlap n (idle m tr)"
  by (simp_all add: idle_def fresh_ids_def one_destroy_def overlap_def)

lemma idle_outside:
  assumes "conc_run env well_behaved c (idle m tr)"
  shows "conc_run env well_behaved c (idle m (tr @ ev))"
proof -
  have "cstep env (idle m tr) (idle m (tr @ ev))"
    using cstep.outside [of env "idle m tr" ev] by (simp add: idle_def)
  with assms show ?thesis by (rule conc_run.step) simp
qed

lemma destroyCleanup_trace: "\<exists>ev. destroyCleanup env c vm tr = tr @ ev"
proof -
  let ?nc = "deriveNetConfig c (Slot vm)"
  obtain ev where "snd (teardownTapDevice env ?nc (snd (teardownFirewall env c ?nc tr))) = tr @ ev"
    using extends_D [OF teardown_grows] by blast
  then show ?thesis
    by (simp add: destroyCleanup_def removeCgroup_def removeVMDir_def perform_def Let_def)
qed

text \<open>The two operations, over any backend that keeps the contract.\<close>

context backend_contract
begin

lemma Create_trace:
  assumes "Create env B teamID ttl vcpu ramMb m b tr = Some (r, m', b', tr')"
    "0 < vcpu" "0 < ramMb" "admitted env m tr vcpu ramMb" "snd (freeSlot env m)"
  shows "\<exists>ev. tr' = (tr @ [(TimeNow, None), (TimeNow, None)]) @ ev"
proof -
  let ?vm = "reserved env teamID (effTTL m ttl) vcpu ramMb (fst (freeSlot env m)) tr"
  let ?root = "Join [VMStateDir (m_cfg m), newVMID (e_now env tr), ''rootfs.ext4'']"
  let ?t = "tr @ [(TimeNow, None), (TimeNow, None)]"
  obtain pe tr1 where root: "prepareRootfs env (GoldenImagePath (m_cfg m)) ?root ?t = (pe, tr1)" by (metis surj_pair)
  obtain ev1 where 1: "tr1 = ?t @ ev1" using extends_D [OF prepareRootfs_neutral [of ?t env]] root by (metis snd_conv)
  show ?thesis
  proof (cases pe)
    case (Some x)
    with assms root 1 show ?thesis by (auto simp: Create_def createLocked_cases Let_def effTTL_def)
  next
    case None
    let ?nc = "deriveNetConfig (m_cfg m) (fst (freeSlot env m))"
    from None assms root obtain err vm2 b2 tr2 where boot: "Boot B ?vm ?nc ?root b tr1 = Some (err, vm2, b2, tr2)"
      by (auto simp: Create_def createLocked_cases Let_def effTTL_def bind_eq_Some_conv)
    with None assms root obtain m2 where
      tr': "tr' = snd (removeVMDir env (vmDir (m_cfg m) (ID vm2)) tr2) \<or> tr' = snd (persist env m2 vm2 tr2)"
      by (auto simp: Create_def createLocked_cases Let_def effTTL_def split: option.splits)
    obtain ev2 where 2: "tr2 = tr1 @ ev2" using boot_trace [OF boot] by blast
    have "\<exists>ev. tr' = tr2 @ ev"
      using tr' extends_D [OF persist_off] by (auto simp: removeVMDir_def perform_def Let_def)
    with 1 2 show ?thesis by auto
  qed
qed

lemma Destroy_trace:
  assumes "Destroy env B k m b tr = (e, m', b', tr')"
  shows "\<exists>ev. tr' = tr @ ev"
proof (cases "mget (vms m) k")
  case None
  with assms show ?thesis by (simp add: Destroy_def)
next
  case (Some vm)
  obtain err b1 tr1 where stop: "Stop B vm b tr = (err, b1, tr1)" by (metis prod_cases3)
  obtain ev where ev: "tr1 = tr @ ev" using stop_trace [OF stop] by blast
  obtain ev' where "destroyCleanup env (m_cfg m) vm tr1 = tr1 @ ev'" using destroyCleanup_trace by blast
  with assms Some stop have "tr' = tr1 \<or> tr' = tr1 @ ev'" by (auto simp: Destroy_def split: option.splits)
  with ev show ?thesis by auto
qed

lemma idle_Create:
  assumes "conc_run env well_behaved c (idle m tr)" "vcpu < 2 ^ 62" "ramMb < 2 ^ 62"
    and "mget (vms m) (newVMID (e_now env tr)) = None"
    and "Create env B teamID ttl vcpu ramMb m b tr = Some (r, m', b', tr')"
  shows "conc_run env well_behaved c (idle m' tr')"
proof (cases "0 < vcpu \<and> 0 < ramMb \<and> admitted env m tr vcpu ramMb \<and> snd (freeSlot env m)")
  case False
  with assms(5) have "m' = m" "tr' = tr" by (auto simp: Create_def createLocked_cases Let_def split: if_splits)
  with assms(1) show ?thesis by simp
next
  case True
  let ?vm = "reserved env teamID (effTTL m ttl) vcpu ramMb (fst (freeSlot env m)) tr"
  let ?m = "m\<lparr>slots := mput (Slot ?vm) (ID ?vm) (slots m)\<rparr>" and ?t = "tr @ [(TimeNow, None), (TimeNow, None)]"
  let ?s = "\<lambda>t. \<lparr>c_mgr = ?m, c_trace = t, booting = [?vm], stopping = []\<rparr>"
  have locked: "createLocked env teamID (effTTL m ttl) vcpu ramMb m tr = (Inr ?vm, ?m, ?t)"
    using True by (simp add: createLocked_cases Let_def)
  have ok: "well_behaved (?s t)" for t
    using assms(2-4) by (simp add: fresh_ids_def one_destroy_def overlap_def reserved_def)
  have "cstep env (idle m tr) (?s ?t)"
    using cstep.createBegin [where vcpu = vcpu and ramMb = ramMb and env = env and teamID = teamID and
      ttl = "effTTL m ttl" and s = "idle m tr" and vm = ?vm and m' = ?m and tr' = ?t] locked True
    by (simp add: idle_def)
  from conc_run.step [OF assms(1) this ok] have began: "conc_run env well_behaved c (?s ?t)" .
  obtain ev where tr': "tr' = ?t @ ev" using Create_trace [OF assms(5)] True by auto
  have "cstep env (?s ?t) (?s tr')" using cstep.outside [of env "?s ?t" ev] by (simp add: tr')
  from conc_run.step [OF began this ok] have worked: "conc_run env well_behaved c (?s tr')" .
  have "cstep env (?s tr') (idle m' tr')"
  proof (cases r)
    case (Inl e)
    have "m' = releaseSlot (Slot ?vm) ?m"
      using assms(5) Create_error Inl True by (auto simp: releaseSlot_def mdel_mput_fresh freeSlot_free)
    with cstep.createFail [of ?vm "?s tr'" env] show ?thesis by (simp add: idle_def)
  next
    case (Inr vm)
    note ok = Create_success [OF assms(5) [unfolded Inr]]
    obtain d p where vm: "vm = ?vm\<lparr>DockerEndpoint := d, Pid := p\<rparr>" "d \<noteq> []" using ok(5) by blast
    have "m' = commitVM vm ?m" by (cases m) (simp add: ok(6) withVM_def commitVM_def vm(1))
    with vm cstep.createDone [of ?vm "?s tr'" d vm p env] show ?thesis by (simp add: idle_def)
  qed
  with worked show ?thesis by (rule conc_run.step) simp
qed

lemma idle_Destroy:
  assumes "conc_run env well_behaved c (idle m tr)" "Destroy env B k m b tr = (e, m', b', tr')"
  shows "conc_run env well_behaved c (idle m' tr')"
proof (cases "mget (vms m) k")
  case None
  with assms show ?thesis by (simp add: Destroy_not_found)
next
  case (Some vm)
  let ?s = "\<lambda>t. \<lparr>c_mgr = m, c_trace = t, booting = [], stopping = [(k, vm)]\<rparr>"
  have ok: "well_behaved (?s t)" for t by (simp add: fresh_ids_def one_destroy_def overlap_def)
  have "cstep env (idle m tr) (?s tr)"
    using cstep.destroyBegin [of "idle m tr" k vm env] Some by (simp add: idle_def)
  from conc_run.step [OF assms(1) this ok] have began: "conc_run env well_behaved c (?s tr)" .
  obtain ev where tr': "tr' = tr @ ev" using Destroy_trace [OF assms(2)] by blast
  have "cstep env (?s tr) (?s tr')" using cstep.outside [of env "?s tr" ev] by (simp add: tr')
  from conc_run.step [OF began this ok] have worked: "conc_run env well_behaved c (?s tr')" .
  have "m' = m \<or> m' = destroyLocked k vm m"
    using assms(2) Destroy_error Destroy_success Some by (cases e) fastforce+
  then have "cstep env (?s tr') (idle m' tr')"
    using cstep.destroyFail [of k vm "?s tr'" env] cstep.destroyDone [of k vm "?s tr'" env]
    by (auto simp: idle_def)
  with worked show ?thesis by (rule conc_run.step) simp
qed

lemma idle_reapLoop:
  "conc_run env well_behaved c (idle m tr) \<Longrightarrow> reapLoop env B ids m b tr = (r, m', b', tr') \<Longrightarrow>
   conc_run env well_behaved c (idle m' tr')"
proof (induction ids arbitrary: m b tr r)
  case (Cons k ids)
  obtain e m1 b1 tr1 where d: "Destroy env B k m b tr = (e, m1, b1, tr1)" by (metis prod_cases4)
  from Cons.IH [OF idle_Destroy [OF Cons.prems(1) d]] Cons.prems(2) show ?case
    by (auto simp: d split: option.splits prod.splits)
qed simp

end

section \<open>Every run\<close>

text \<open>
  C18. The critical sections put together are the sequential operations: every run of API calls and reaper
  rounds one after the other is an interleaving, with one \<open>Create\<close> and one \<open>Destroy\<close> at a time, that ends
  with the same manager and the same calls to the outside and nothing in flight.
\<close>

theorem sequential_runs_interleave:
  assumes "mgr_run env c m st tr"
  shows "conc_run env (\<lambda>s. fresh_ids s \<and> one_destroy s \<and> overlap 1 s) c
    \<lparr>c_mgr = m, c_trace = tr, booting = [], stopping = []\<rparr>"
proof -
  have "conc_run env well_behaved c (idle m tr)"
    using assms
  proof (induction rule: mgr_run.induct)
    case (start tr)
    have "conc_run env well_behaved c (idle (emptyManager c) [])"
      using conc_run.init [of env well_behaved c] by (simp add: conc_init_def idle_def)
    from idle_outside [OF this, of tr] show ?case by simp
  next
    case (other m st tr ev)
    then show ?case by (intro idle_outside)
  next
    case (create m st tr vcpu ramMb teamID ttl r m' st' tr')
    from fc.idle_Create [OF create.IH create.hyps(2-5)] show ?case .
  next
    case (destroy m st tr k e m' st' tr')
    from fc.idle_Destroy [OF destroy.IH destroy.hyps(2)] show ?case .
  next
    case (reap m st tr ids m' st' tr')
    from fc.idle_reapLoop [OF idle_outside [OF reap.IH, of "[(TimeNow, None)]"]] reap.hyps(2) show ?case
      by (simp add: ReapExpired_def timeNow_def)
  qed
  then show ?thesis by (simp add: idle_def)
qed

theorem sequential_runs_interleave_witness:
  "\<exists>m tr. length (vms m) = 1 \<and> conc_run host (\<lambda>s. fresh_ids s \<and> one_destroy s \<and> overlap 1 s) example_cfg
     \<lparr>c_mgr = m, c_trace = tr, booting = [], stopping = []\<rparr>"
proof -
  obtain vm m st tr where run: "mgr_run host example_cfg m st tr" "length (vms m) = 1" by (rule host_run)
  from sequential_runs_interleave [OF run(1)] run(2) show ?thesis by blast
qed

end
