(* ===== verification/Allocator.thy ===== *)
theory Allocator
  imports Lifecycle
begin

text \<open>
  What the manager promises, without its tables: an allocator that grants an id the lowest free slot
  and its share of two budgets, and takes them back. The abstract state is a map from ids to what
  they hold. The manager with its two tables, its admission check on wrapping sums and its
  search for a slot is shown to simulate it, operation by operation.
\<close>

section \<open>The abstract allocator\<close>

type_synonym grant = "int \<times> int \<times> int"

type_synonym alloc = "string \<rightharpoonup> grant"

definition a_slots :: "alloc \<Rightarrow> int set" where
  "a_slots A = fst ` ran A"

definition a_cpu :: "alloc \<Rightarrow> int" where
  "a_cpu A = (\<Sum>k\<in>dom A. fst (snd (the (A k))))"

definition a_ram :: "alloc \<Rightarrow> int" where
  "a_ram A = (\<Sum>k\<in>dom A. snd (snd (the (A k))))"

text \<open>A grant: positive, within both budgets, in the lowest slot that nobody holds.\<close>

definition a_grant :: "int \<Rightarrow> int \<Rightarrow> string \<Rightarrow> grant \<Rightarrow> alloc \<Rightarrow> alloc \<Rightarrow> bool" where
  "a_grant C R k g A A' \<longleftrightarrow>
     (case g of (s, v, r) \<Rightarrow>
        k \<notin> dom A \<and> 0 < v \<and> 0 < r \<and> a_cpu A + v \<le> C \<and> a_ram A + r \<le> R \<and>
        0 \<le> s \<and> s < C \<and> s \<notin> a_slots A \<and> {0..<s} \<subseteq> a_slots A \<and> A' = A(k \<mapsto> g))"

inductive a_run :: "int \<Rightarrow> int \<Rightarrow> alloc \<Rightarrow> bool" for C R where
  start: "a_run C R Map.empty"
| grant: "a_run C R A \<Longrightarrow> a_grant C R k g A A' \<Longrightarrow> a_run C R A'"
| release: "a_run C R A \<Longrightarrow> a_run C R (A(k := None))"

section \<open>The abstraction\<close>

definition absm :: "Manager \<Rightarrow> alloc" where
  "absm m k = map_option (\<lambda>vm. (Slot vm, Vcpu vm, RamMb vm)) (mget (vms m) k)"

lemma dom_absm [simp]: "dom (absm m) = dom (mget (vms m))"
  by (auto simp: absm_def dom_def)

lemma absm_sums: "wf_mgr m \<Longrightarrow> a_cpu (absm m) = cpuSum m" "wf_mgr m \<Longrightarrow> a_ram (absm m) = ramSum m"
  using gm.sum_entries [OF wf_mgrD(1), of m Vcpu] gm.sum_entries [OF wf_mgrD(1), of m RamMb]
  by (auto simp: a_cpu_def a_ram_def cpuSum_def ramSum_def absm_def intro!: sum.cong)

lemma absm_slots:
  assumes "wf_mgr m" "quiescent m"
  shows "a_slots (absm m) = dom (mget (slots m))"
proof -
  have "s \<in> a_slots (absm m) \<longleftrightarrow> (\<exists>k vm. mget (vms m) k = Some vm \<and> Slot vm = s)" for s
    by (force simp: a_slots_def absm_def ran_def)
  moreover have "s \<in> dom (mget (slots m)) \<longleftrightarrow> (\<exists>k vm. mget (vms m) k = Some vm \<and> Slot vm = s)" for s
    using assms(2) wf_mgrD(4) [OF assms(1)] unfolding quiescent_def by blast
  ultimately show ?thesis by blast
qed

lemma absm_withVM: "absm (withVM vm m) = (absm m)(ID vm \<mapsto> (Slot vm, Vcpu vm, RamMb vm))"
  by (auto simp: absm_def withVM_def mget_mput fun_eq_iff)

lemma absm_destroyLocked: "absm (destroyLocked k vm m) = (absm m)(k := None)"
  by (auto simp: absm_def destroyLocked_def mget_mdel fun_eq_iff)

lemma absm_empty: "absm (emptyManager c) = Map.empty"
  by (simp add: absm_def emptyManager_def fun_eq_iff)

section \<open>Simulation\<close>

lemma freeSlot_all_below:
  assumes "snd (freeSlot env m)"
  shows "{0..<fst (freeSlot env m)} \<subseteq> dom (mget (slots m))"
  using freeSlotLoop_found [of "slots m" 0 "capacityCPU env"] assms
  by (cases "freeSlot env m") (auto simp: freeSlot_def)

lemma Create_simulates:
  assumes "Create env (fcBackend env c) teamID ttl vcpu ramMb m st tr = Some (Inr vm, m', st', tr')"
    and "wf_mgr m" "quiescent m" "no_wrap m vcpu ramMb" "mget (vms m) (newVMID (e_now env tr)) = None"
    and "capacityRAMMb env m tr = R"
  shows "a_grant (capacityCPU env) R (ID vm) (Slot vm, vcpu, ramMb) (absm m) (absm m')"
proof -
  note ok = fc.Create_success [OF assms(1)]
  note spec = Create_success_spec [OF assms(1,2,4,5)]
  have "{0..<Slot vm} \<subseteq> dom (mget (slots m))"
    using freeSlot_all_below [OF ok(4)] ok(5) by auto
  with spec(3-8,13-18) assms(6) show ?thesis
    unfolding a_grant_def spec(1) absm_withVM
    by (auto simp: absm_sums [OF assms(2)] absm_slots [OF assms(2,3)] spec(1) [symmetric])
qed

lemma Destroy_simulates:
  assumes "Destroy env (fcBackend env c) k m st tr = (e, m', st', tr')"
  shows "absm m' = (if e = None then (absm m)(k := None) else absm m)"
proof (cases e)
  case None
  with assms fc.Destroy_success obtain vm where "m' = destroyLocked k vm m" by blast
  with None show ?thesis by (simp add: absm_destroyLocked)
next
  case (Some x)
  with fc.Destroy_error [OF assms [unfolded Some]] show ?thesis by simp
qed

lemma reapLoop_simulates:
  "reapLoop env (fcBackend env c) ids m st tr = (r, m', st', tr') \<Longrightarrow> a_run C R (absm m) \<Longrightarrow> a_run C R (absm m')"
proof (induction ids arbitrary: m st tr r)
  case (Cons k ids)
  obtain e m1 st1 tr1 where d: "Destroy env (fcBackend env c) k m st tr = (e, m1, st1, tr1)"
    by (metis prod_cases4)
  have "a_run C R (absm m1)"
    using Destroy_simulates [OF d] Cons.prems(2) a_run.release by (auto split: if_splits)
  with Cons.IH Cons.prems(1) show ?case by (auto simp: d split: option.splits prod.splits)
qed simp

lemma manager_refines_lemma:
  assumes "mgr_run env c m st tr" "0 \<le> capacityCPU env" "capacityCPU env \<le> 2 ^ 62" "0 \<le> R" "R \<le> 2 ^ 62"
    "\<And>tr m. m_cfg m = c \<Longrightarrow> capacityRAMMb env m tr = R"
  shows "a_run (capacityCPU env) R (absm m)"
  using assms(1)
proof (induction rule: mgr_run.induct)
  case start
  show ?case using a_run.start by (simp add: absm_empty)
next
  case (create m st tr vcpu ramMb teamID ttl r m' st' tr')
  have inv: "mgr_inv env c R m" by (rule mgr_run_inv [OF create.hyps(1) assms(2-)])
  then have wf: "wf_mgr m" "quiescent m" "no_wrap m vcpu ramMb" and cfg: "m_cfg m = c"
    using create.hyps(2,3) assms(3,5) by (auto simp: mgr_inv_def no_wrap_def)
  show ?case
  proof (cases r)
    case (Inl e)
    with create fc.Create_error show ?thesis by blast
  next
    case (Inr vm)
    from Create_simulates [OF create.hyps(5) [unfolded Inr] wf create.hyps(4) assms(6) [OF cfg]] create.IH
    show ?thesis by (blast intro: a_run.grant)
  qed
next
  case (destroy m st tr k e m' st' tr')
  with Destroy_simulates [OF destroy.hyps(2)] a_run.release show ?case by (auto split: if_splits)
next
  case (reap m st tr ids m' st' tr')
  then show ?case using reapLoop_simulates by (fastforce simp: ReapExpired_def timeNow_def)
qed

text \<open>
  C9. The manager refines the allocator: whatever API calls and reaper rounds run one after the
  other, what the VMs of the table hold is a state the allocator reaches with the host's
  CPUs and memory as its budgets, each successful \<open>Create\<close> being one grant of the lowest
  free slot, each VM destroyed one release, and everything that fails no step at all.
\<close>

theorem manager_refines_allocator:
  assumes "mgr_run env c m st tr" "0 \<le> capacityCPU env" "capacityCPU env \<le> 2 ^ 62" "0 \<le> R" "R \<le> 2 ^ 62"
    "\<And>tr m. m_cfg m = c \<Longrightarrow> capacityRAMMb env m tr = R"
  shows "a_run (capacityCPU env) R (absm m)"
  by (rule manager_refines_lemma [OF assms])

theorem manager_refines_allocator_witness:
  "\<exists>m st tr. mgr_run host example_cfg m st tr \<and> a_run 4 8192 (absm m) \<and> card (dom (absm m)) = 1"
proof -
  obtain vm m st tr where run: "mgr_run host example_cfg m st tr" and one: "length (vms m) = 1" by (rule host_run)
  have inv: "mgr_inv host example_cfg 8192 m" by (rule mgr_run_inv [OF run _ _ _ _ host_ram]) (simp_all add: host_capacity)
  have "a_run (capacityCPU host) 8192 (absm m)"
    by (rule manager_refines_allocator [OF run _ _ _ _ host_ram]) (simp_all add: host_capacity)
  moreover have "card (dom (absm m)) = 1"
    using one gm.length_entries [of "vms m"] inv by (simp add: mgr_inv_def wf_mgrD)
  ultimately show ?thesis using run by (auto simp: host_capacity)
qed

section \<open>What the allocator guarantees\<close>

lemma a_grantE:
  assumes "a_grant C R k g A A'"
  obtains s v r where "g = (s, v, r)" "k \<notin> dom A" "0 < v" "0 < r" "a_cpu A + v \<le> C" "a_ram A + r \<le> R"
    "0 \<le> s" "s < C" "s \<notin> a_slots A" "{0..<s} \<subseteq> a_slots A" "A' = A(k \<mapsto> g)"
  using assms by (cases g) (auto simp: a_grant_def)

text \<open>A slot is never higher than the number of VMs at the time it was granted would need.\<close>

lemma a_run_finite: "a_run C R A \<Longrightarrow> finite (dom A)"
proof (induction rule: a_run.induct)
  case (release A k)
  then show ?case by (metis dom_fun_upd finite_Diff)
qed (auto elim: a_grantE)

lemma grant_slot_bound:
  assumes "a_run C R A" "a_grant C R k (s, v, r) A A'"
  shows "s \<le> int (card (dom A))"
proof -
  have "{0..<s} \<subseteq> a_slots A" using assms(2) by (auto elim: a_grantE)
  moreover have "a_slots A = (\<lambda>k. fst (the (A k))) ` dom A"
    by (force simp: a_slots_def ran_def dom_def image_iff)
  ultimately have "card {0..<s} \<le> card (dom A)"
    using a_run_finite [OF assms(1)] by (metis card_image_le card_mono finite_imageI order_trans)
  then show ?thesis by simp
qed

text \<open>
  Slots stay dense: the slot a new VM gets is at most the number of VMs in the table, so that tap
  names, addresses and ports stay as low as the load allows.
\<close>

theorem Create_slot_dense:
  assumes "Create env (fcBackend env c) teamID ttl vcpu ramMb m st tr = Some (Inr vm, m', st', tr')"
    and "mgr_run env c m st tr" "vcpu < 2 ^ 62" "ramMb < 2 ^ 62" "mget (vms m) (newVMID (e_now env tr)) = None"
    and "0 \<le> capacityCPU env" "capacityCPU env \<le> 2 ^ 62" "0 \<le> R" "R \<le> 2 ^ 62"
    "\<And>tr m. m_cfg m = c \<Longrightarrow> capacityRAMMb env m tr = R"
  shows "0 \<le> Slot vm \<and> Slot vm \<le> int (length (vms m))"
proof -
  have inv: "mgr_inv env c R m" by (rule mgr_run_inv [OF assms(2,6-)])
  then have wf: "wf_mgr m" "quiescent m" "no_wrap m vcpu ramMb" and cfg: "m_cfg m = c"
    using assms(3,4,7,9) by (auto simp: mgr_inv_def no_wrap_def)
  have "a_run (capacityCPU env) R (absm m)"
    using manager_refines_lemma [OF assms(2,6-)] .
  from grant_slot_bound [OF this Create_simulates [OF assms(1) wf assms(5) assms(10) [OF cfg]]]
    Create_success_spec(5) [OF assms(1) wf(1,3) assms(5)]
  show ?thesis using gm.length_entries [OF wf_mgrD(1) [OF wf(1)]] by simp
qed

theorem Create_slot_dense_witness:
  "\<exists>vm m' st' tr'. Create host (fcBackend host example_cfg) ''team'' 60 2 4096 (emptyManager example_cfg)
       NewFirecrackerBackend [] = Some (Inr vm, m', st', tr') \<and> Slot vm = 0"
proof -
  let ?m = "emptyManager example_cfg"
  obtain vm m' st' tr' where run: "Create host (fcBackend host example_cfg) ''team'' 60 2 4096 ?m
      NewFirecrackerBackend [] = Some (Inr vm, m', st', tr')" by (rule example_create)
  have "mget (vms ?m) k = None" "length (vms ?m) = 0" for k by (simp_all add: emptyManager_def)
  with Create_slot_dense [OF run mgr_run.start _ _ _ _ _ _ _ host_ram] have "Slot vm = 0"
    by (simp add: host_capacity)
  with run show ?thesis by blast
qed

end
