(* ===== verification/Persistence.thy ===== *)
theory Persistence
  imports Lifecycle
begin

text \<open>
  The state directory over a whole run. The manager keeps its table twice, in memory and in the
  \<open>meta.json\<close> files that \<open>reconcile\<close> reads after a restart. On a disk that works the two agree after every
  operation, failed ones included, so that the agent may be restarted between any two of them.
\<close>

section \<open>Types\<close>

text \<open>The process ids the SDK reports are Go integers.\<close>

definition pids_ok :: "env \<Rightarrow> bool" where
  "pids_ok env \<longleftrightarrow> (\<forall>tr h. is_i64 (fst (e_pid env tr h)))"

definition vms_typed :: "Manager \<Rightarrow> bool" where
  "vms_typed m \<longleftrightarrow> (\<forall>k vm. mget (vms m) k = Some vm \<longrightarrow>
     ID vm = k \<and> pathElem k \<and> vm_ints_ok vm \<and> DockerEndpoint vm \<noteq> [])"

lemma vms_typed_destroyLocked: "vms_typed m \<Longrightarrow> vms_typed (destroyLocked k vm m)"
  by (simp add: vms_typed_def destroyLocked_def mget_mdel)

lemma newVMID_pathElem: "pathElem (newVMID t)"
proof -
  have "CHR ''/'' \<notin> set (Itoa x)" for x
    using Itoa_chars [of "CHR ''/''" x] by (auto simp: is_digit_def)
  then show ?thesis by (simp add: pathElem_def newVMID_def)
qed

lemma Create_success_pid:
  assumes "Create env (fcBackend env c) teamID ttl vcpu ramMb m st tr = Some (Inr vm, m', st', tr')" "pids_ok env"
  shows "is_i64 (Pid vm)"
proof -
  obtain tr1 tr2 vm0 nc root where "fcBoot env c vm0 nc root st tr1 = Some (None, vm, st', tr2)"
    using Create_success_boot [OF assms(1)] by (metis Backend.select_convs(1) fcBackend_def)
  then show ?thesis
    by (cases rule: fcBoot_cases) (use assms(2) bootCgroup_pid in \<open>fastforce simp: pids_ok_def\<close>)+
qed

lemma Create_success_typed:
  assumes "Create env (fcBackend env c) teamID ttl vcpu ramMb m st tr = Some (Inr vm, m', st', tr')" "pids_ok env"
    and "vcpu < 2 ^ 62" "ramMb < 2 ^ 62" "capacityCPU env \<le> 2 ^ 62"
  shows "ID vm = newVMID (e_now env tr)" "CreatedAt vm = e_now env (tr @ [(TimeNow, None)])"
    "vm_ints_ok vm" "DockerEndpoint vm \<noteq> []"
proof -
  note ok = fc.Create_success [OF assms(1)]
  obtain d p where vm: "vm = (reserved env teamID (effTTL m ttl) vcpu ramMb (fst (freeSlot env m)) tr)
      \<lparr>DockerEndpoint := d, Pid := p\<rparr>" "d \<noteq> []" using ok(5) by blast
  from vm show "ID vm = newVMID (e_now env tr)" "CreatedAt vm = e_now env (tr @ [(TimeNow, None)])"
    "DockerEndpoint vm \<noteq> []" by (simp_all add: reserved_def)
  have "is_i64 (TTL vm)" using vm by (simp add: reserved_def)
  moreover have "is_i64 (Slot vm)" "is_i64 (Vcpu vm)" "is_i64 (RamMb vm)"
    using vm(1) freeSlot_bounds [OF ok(4)] ok(1,2) assms(3-5) by (simp_all add: is_i64_def)
  ultimately show "vm_ints_ok vm" using Create_success_pid [OF assms(1,2)] by (simp add: vm_ints_ok_def)
qed

lemma vms_typed_Create:
  assumes "Create env (fcBackend env c) teamID ttl vcpu ramMb m st tr = Some (r, m', st', tr')" "pids_ok env"
    and "vcpu < 2 ^ 62" "ramMb < 2 ^ 62" "capacityCPU env \<le> 2 ^ 62" "vms_typed m"
  shows "vms_typed m'"
proof (cases r)
  case (Inl e)
  with assms fc.Create_error show ?thesis by blast
next
  case (Inr vm)
  note ok = Create_success_typed [OF assms(1) [unfolded Inr] assms(2-5)]
  have "m' = withVM vm m" by (rule fc.Create_success(6) [OF assms(1) [unfolded Inr]])
  with ok newVMID_pathElem assms(6) show ?thesis
    by (auto simp: vms_typed_def withVM_def mget_mput)
qed

lemma vms_typed_Destroy:
  assumes "Destroy env (fcBackend env c) k m st tr = (e, m', st', tr')" "vms_typed m"
  shows "vms_typed m'"
proof (cases e)
  case None
  with assms(1) fc.Destroy_success obtain vm where "m' = destroyLocked k vm m" by blast
  with assms(2) show ?thesis by (simp add: vms_typed_destroyLocked)
next
  case (Some x)
  with fc.Destroy_error [OF assms(1) [unfolded Some]] assms(2) show ?thesis by simp
qed

lemma vms_typed_reapLoop:
  "reapLoop env (fcBackend env c) ids m st tr = (r, m', st', tr') \<Longrightarrow> vms_typed m \<Longrightarrow> vms_typed m'"
proof (induction ids arbitrary: m st tr r)
  case (Cons k ids)
  obtain e m1 st1 tr1 where d: "Destroy env (fcBackend env c) k m st tr = (e, m1, st1, tr1)"
    by (metis prod_cases4)
  from Cons.IH [OF _ vms_typed_Destroy [OF d Cons.prems(2)]] Cons.prems(1) show ?case
    by (auto simp: d split: option.splits prod.splits)
qed simp

lemma mgr_run_typed:
  assumes "mgr_run env c m st tr" "capacityCPU env \<le> 2 ^ 62" "pids_ok env"
  shows "vms_typed m"
  using assms(1)
proof (induction rule: mgr_run.induct)
  case (create m st tr vcpu ramMb teamID ttl r m' st' tr')
  from vms_typed_Create [OF create.hyps(5) assms(3) create.hyps(2,3) assms(2) create.IH] show ?case .
next
  case (reap m st tr ids m' st' tr')
  then show ?case using vms_typed_reapLoop by (fastforce simp: ReapExpired_def timeNow_def)
qed (auto simp: vms_typed_def emptyManager_def dest: vms_typed_Destroy [unfolded vms_typed_def])

text \<open>
  C26. In every run, each VM of the table is stored under its own id, an id that is a single path
  element (so that its files lie in a directory of its own), all of its integers are within their Go
  types, and it has an endpoint.
\<close>

theorem run_vms_typed:
  assumes "mgr_run env c m st tr" "capacityCPU env \<le> 2 ^ 62" "pids_ok env" "Get k m = Some vm"
  shows "ID vm = k \<and> pathElem k \<and> vm_ints_ok vm \<and> DockerEndpoint vm \<noteq> []"
  using mgr_run_typed [OF assms(1-3)] assms(4) by (simp add: vms_typed_def Get_def)

lemma host_pids: "pids_ok host"
  by (simp add: pids_ok_def kernel_def calm_def is_i64_def)

theorem run_vms_typed_witness:
  "\<exists>m st tr vm. mgr_run host example_cfg m st tr \<and> Get (ID vm) m = Some vm \<and> Vcpu vm = 2 \<and>
     pathElem (ID vm) \<and> vm_ints_ok vm"
proof -
  obtain vm m st tr where run: "mgr_run host example_cfg m st tr" "mget (vms m) (ID vm) = Some vm" "Vcpu vm = 2"
    by (rule host_run)
  from run_vms_typed [OF run(1) _ host_pids, of "ID vm" vm] run show ?thesis
    by (auto simp: host_capacity Get_def)
qed

section \<open>The metadata files of one operation\<close>

lemma destroyCleanup_files:
  obtains tr1 where "grows tr tr1" "destroyCleanup env c vm tr =
    tr1 @ [(RemoveAll (vmDir c (ID vm)), e_err env tr1 (RemoveAll (vmDir c (ID vm))))]"
proof -
  let ?nc = "deriveNetConfig c (Slot vm)"
  let ?t = "snd (teardownTapDevice env ?nc (snd (teardownFirewall env c ?nc tr)))"
  let ?t1 = "snd (removeCgroup env (ID vm) ?t)"
  have "grows tr ?t" by (rule teardown_grows)
  moreover have "grows ?t ?t1" by (simp add: removeCgroup_def perform_def Let_def extends_one)
  ultimately have "grows tr ?t1" by (rule extends_trans)
  moreover have "destroyCleanup env c vm tr =
      ?t1 @ [(RemoveAll (vmDir c (ID vm)), e_err env ?t1 (RemoveAll (vmDir c (ID vm))))]"
    by (simp add: destroyCleanup_def removeVMDir_def perform_def Let_def)
  ultimately show ?thesis using that by blast
qed

lemma Destroy_files:
  assumes "Destroy env (fcBackend env c) k m st tr = (e, m', st', tr')" "disk_ok env d"
  obtains (failed) "m' = m" "grows tr tr'"
  | (gone) vm tr1 where "mget (vms m) k = Some vm" "m' = destroyLocked k vm m" "grows tr tr1"
      "tr' = tr1 @ [(RemoveAll (vmDir (m_cfg m) (ID vm)), None)]"
proof (cases "mget (vms m) k")
  case None
  with assms failed show ?thesis by (simp add: Destroy_def)
next
  case (Some vm)
  obtain err st1 tr1 where stop: "fcStop env vm st tr = (err, st1, tr1)" by (metis prod_cases3)
  note g = fcStop_grows [OF stop]
  show ?thesis
  proof (cases err)
    case (Some x)
    with assms \<open>mget (vms m) k = Some vm\<close> stop g failed show ?thesis by (simp add: Destroy_def fcBackend_def)
  next
    case None
    obtain tr2 where "grows tr1 tr2" "destroyCleanup env (m_cfg m) vm tr1 = tr2 @ [(RemoveAll (vmDir (m_cfg m) (ID vm)), None)]"
      using destroyCleanup_files [of tr1 env "m_cfg m" vm] assms(2) by (auto simp: disk_ok_def)
    with None assms(1) Some stop extends_trans [OF g] show ?thesis
      by (intro gone [of vm tr2]) (auto simp: Destroy_def fcBackend_def)
  qed
qed

lemma Create_error_files:
  assumes "Create env (fcBackend env c) teamID ttl vcpu ramMb m st tr = Some (Inl e, m', st', tr')"
  obtains (early) "grows tr tr'"
  | (notBooted) tr1 p where "grows tr tr1" "p = vmDir (m_cfg m) (newVMID (e_now env tr))"
      "tr' = tr1 @ [(RemoveAll p, e_err env tr1 (RemoveAll p))]"
  using assms
proof (cases rule: Create_error_boot)
  case early
  then show ?thesis by (intro that(1) neutral_grows)
next
  case (notBooted tr1 x vm' tr2 y)
  let ?vm = "reserved env teamID (effTTL m ttl) vcpu ramMb (fst (freeSlot env m)) tr"
  have "grows tr1 tr2" using notBooted(4) fcBoot_grows by (simp add: fcBackend_def)
  moreover have "ID vm' = ID ?vm" using fc.boot_keeps(1) [OF notBooted(4)] .
  ultimately show ?thesis
    using extends_trans [OF neutral_grows [OF notBooted(1)]] notBooted(5,6)
    by (intro that(2) [of tr2]) (simp_all add: reserved_def)
qed

lemma Create_success_files:
  assumes "Create env (fcBackend env c) teamID ttl vcpu ramMb m st tr = Some (Inr vm, m', st', tr')"
    "disk_ok env d" "yearOk (e_zone env) (CreatedAt vm)"
  obtains tr1 where "grows tr tr1"
    "tr' = tr1 @ [(MkdirAll (vmDir (m_cfg m) (ID vm)), None),
       (WriteFile (Join [vmDir (m_cfg m) (ID vm), ''meta.json'']) (Doc (encodeVM (e_zone env) vm)), None)]"
proof -
  obtain tr1 tr2 m1 vm0 nc root where "extends neutral tr tr1" and boot: "fcBoot env c vm0 nc root st tr1 = Some (None, vm, st', tr2)"
    and p: "tr' = snd (persist env m1 vm tr2)" "m_cfg m1 = m_cfg m"
    using Create_success_boot [OF assms(1)] by (metis Backend.select_convs(1) fcBackend_def)
  then have "grows tr tr2" using extends_trans [OF neutral_grows fcBoot_grows] by blast
  moreover have "marshalVM env vm = Inr (Doc (encodeVM (e_zone env) vm))" using assms(3) by (simp add: marshalVM_def)
  ultimately show ?thesis
    using p assms(2) by (intro that [of tr2]) (simp_all add: persist_def perform_def Let_def disk_ok_def)
qed

section \<open>Table and disk agree\<close>

definition saved :: "env \<Rightarrow> Config \<Rightarrow> Manager \<Rightarrow> trace \<Rightarrow> bool" where
  "saved env c m tr \<longleftrightarrow> undamaged tr \<and>
     (\<forall>k. pathElem k \<longrightarrow> filesAfter tr (metaPath (VMStateDir c) k) =
        map_option (\<lambda>vm. Doc (encodeVM (e_zone env) vm)) (mget (vms m) k)) \<and>
     (\<forall>k vm. mget (vms m) k = Some vm \<longrightarrow> yearOk (e_zone env) (CreatedAt vm))"

lemma saved_grows: "saved env c m tr \<Longrightarrow> grows tr tr' \<Longrightarrow> saved env c m tr'"
  by (simp add: saved_def keepsMeta_files keepsMeta_undamaged)

lemma saved_remove:
  assumes "saved env c m tr" "pathElem k" "mget (vms m) k = None"
  shows "saved env c m (tr @ [(RemoveAll (vmDir c k), None)])"
  using assms by (auto simp: saved_def vmDir_def underDir_meta)

lemma saved_destroyLocked:
  assumes "saved env c m tr" "pathElem k"
  shows "saved env c (destroyLocked k vm m) (tr @ [(RemoveAll (vmDir c k), None)])"
  using assms by (auto simp: saved_def vmDir_def underDir_meta destroyLocked_def mget_mdel)

lemma saved_withVM:
  assumes "saved env c m tr" "pathElem (ID vm)" "yearOk (e_zone env) (CreatedAt vm)"
  shows "saved env c (withVM vm m) (tr @ [(MkdirAll p, None),
    (WriteFile (Join [vmDir c (ID vm), ''meta.json'']) (Doc (encodeVM (e_zone env) vm)), None)])"
proof -
  have path: "Join [vmDir c (ID vm), ''meta.json''] = metaPath (VMStateDir c) (ID vm)"
    using assms(2) by (simp add: vmDir_def metaPath_def Join_Join)
  have "filesAfter (tr @ [(MkdirAll p, None), (WriteFile q x, None)]) = (filesAfter tr)(q \<mapsto> x)" for q x
    using filesAfter_snoc [of "tr @ [(MkdirAll p, None)]"] by simp
  with assms path show ?thesis
    by (auto simp: saved_def withVM_def mget_mput metaPath_inj)
qed

lemma saved_Create:
  assumes "Create env (fcBackend env c) teamID ttl vcpu ramMb m st tr = Some (r, m', st', tr')"
    and "saved env c m tr" "m_cfg m = c" "disk_ok env d" "mget (vms m) (newVMID (e_now env tr)) = None"
    and "yearOk (e_zone env) (e_now env (tr @ [(TimeNow, None)]))"
  shows "saved env c m' tr'"
proof (cases r)
  case (Inl e)
  note run = assms(1) [unfolded Inl]
  have m': "m' = m" by (rule fc.Create_error [OF run])
  from run show ?thesis
  proof (cases rule: Create_error_files)
    case early
    with assms(2) m' saved_grows show ?thesis by blast
  next
    case (notBooted tr1 p)
    have "e_err env tr1 (RemoveAll p) = None" using assms(4) by (simp add: disk_ok_def)
    with saved_remove [OF saved_grows [OF assms(2) notBooted(1)] newVMID_pathElem assms(5)] show ?thesis
      by (simp add: m' notBooted(2,3) assms(3))
  qed
next
  case (Inr vm)
  note run = assms(1) [unfolded Inr]
  have vm: "ID vm = newVMID (e_now env tr)" "CreatedAt vm = e_now env (tr @ [(TimeNow, None)])"
    using fc.Create_success(5) [OF run] by (auto simp: reserved_def)
  then have year: "yearOk (e_zone env) (CreatedAt vm)" using assms(6) by simp
  obtain tr1 where tr1: "grows tr tr1" "tr' = tr1 @ [(MkdirAll (vmDir c (ID vm)), None),
      (WriteFile (Join [vmDir c (ID vm), ''meta.json'']) (Doc (encodeVM (e_zone env) vm)), None)]"
    using Create_success_files [OF run assms(4) year] assms(3) by metis
  have "pathElem (ID vm)" by (simp add: vm(1) newVMID_pathElem)
  from saved_withVM [OF saved_grows [OF assms(2) tr1(1)] this year] fc.Create_success(6) [OF run] show ?thesis
    by (simp add: tr1(2))
qed

lemma saved_Destroy:
  assumes "Destroy env (fcBackend env c) k m st tr = (e, m', st', tr')"
    and "saved env c m tr" "m_cfg m = c" "disk_ok env d" "vms_typed m"
  shows "saved env c m' tr'"
  using assms(1,4)
proof (cases rule: Destroy_files)
  case failed
  with assms(2) saved_grows show ?thesis by blast
next
  case (gone vm tr1)
  then have "ID vm = k" "pathElem k" using assms(5) by (simp_all add: vms_typed_def)
  with saved_destroyLocked [OF saved_grows [OF assms(2) gone(3)]] gone(2,4) assms(3) show ?thesis by simp
qed

lemma saved_reapLoop:
  assumes "disk_ok env d"
  shows "reapLoop env (fcBackend env c) ids m st tr = (r, m', st', tr') \<Longrightarrow> saved env c m tr \<Longrightarrow>
    m_cfg m = c \<Longrightarrow> vms_typed m \<Longrightarrow> saved env c m' tr'"
proof (induction ids arbitrary: m st tr r)
  case (Cons k ids)
  obtain e m1 st1 tr1 where del: "Destroy env (fcBackend env c) k m st tr = (e, m1, st1, tr1)"
    by (metis prod_cases4)
  have "m_cfg m1 = c"
    using del assms Cons.prems(3) by (cases rule: Destroy_files) (simp_all add: destroyLocked_def)
  with Cons.IH [OF _ saved_Destroy [OF del Cons.prems(2,3) assms Cons.prems(4)]]
    vms_typed_Destroy [OF del Cons.prems(4)] Cons.prems(1)
  show ?case by (auto simp: del split: option.splits prod.splits)
qed simp

section \<open>Every run\<close>

text \<open>
  The runs of \<open>mgr_run\<close> in which nothing but the agent's own operations changes the metadata files, from a
  state directory without any, while the clock stays within the years a timestamp can have.
\<close>

inductive disk_run :: "env \<Rightarrow> Config \<Rightarrow> Manager \<Rightarrow> FcState \<Rightarrow> trace \<Rightarrow> bool" for env c where
  start: "extends keepsMeta [] tr \<Longrightarrow> disk_run env c (emptyManager c) NewFirecrackerBackend tr"
| other: "disk_run env c m st tr \<Longrightarrow> extends keepsMeta tr tr' \<Longrightarrow> disk_run env c m st tr'"
| create: "disk_run env c m st tr \<Longrightarrow> vcpu < 2 ^ 62 \<Longrightarrow> ramMb < 2 ^ 62 \<Longrightarrow>
    mget (vms m) (newVMID (e_now env tr)) = None \<Longrightarrow>
    yearOk (e_zone env) (e_now env (tr @ [(TimeNow, None)])) \<Longrightarrow>
    Create env (fcBackend env c) teamID ttl vcpu ramMb m st tr = Some (r, m', st', tr') \<Longrightarrow>
    disk_run env c m' st' tr'"
| destroy: "disk_run env c m st tr \<Longrightarrow>
    Destroy env (fcBackend env c) k m st tr = (e, m', st', tr') \<Longrightarrow> disk_run env c m' st' tr'"
| reap: "disk_run env c m st tr \<Longrightarrow>
    ReapExpired env (fcBackend env c) m st tr = (ids, m', st', tr') \<Longrightarrow> disk_run env c m' st' tr'"

lemma disk_run_mgr_run: "disk_run env c m st tr \<Longrightarrow> mgr_run env c m st tr"
proof (induction rule: disk_run.induct)
  case (other m st tr tr')
  then show ?case using extends_D mgr_run.other by blast
qed (blast intro: mgr_run.intros)+

lemma disk_run_saved:
  assumes "disk_run env c m st tr" "capacityCPU env \<le> 2 ^ 62" "pids_ok env" "disk_ok env d"
    "\<And>m st tr. mgr_run env c m st tr \<Longrightarrow> m_cfg m = c"
  shows "saved env c m tr"
  using assms(1)
proof (induction rule: disk_run.induct)
  case (start tr)
  have "saved env c (emptyManager c) []" by (simp add: saved_def emptyManager_def)
  with start saved_grows show ?case by blast
next
  case (other m st tr tr')
  then show ?case using saved_grows by blast
next
  case (create m st tr vcpu ramMb teamID ttl r m' st' tr')
  have "m_cfg m = c" using disk_run_mgr_run [OF create.hyps(1)] by (rule assms(5))
  from saved_Create [OF create.hyps(6) create.IH this assms(4) create.hyps(4,5)] show ?case .
next
  case (destroy m st tr k e m' st' tr')
  note run = disk_run_mgr_run [OF destroy.hyps(1)]
  from saved_Destroy [OF destroy.hyps(2) destroy.IH assms(5) [OF run] assms(4) mgr_run_typed [OF run assms(2,3)]]
  show ?case .
next
  case (reap m st tr ids m' st' tr')
  note run = disk_run_mgr_run [OF reap.hyps(1)]
  have "grows tr (tr @ [(TimeNow, None)])" by (simp add: extends_one)
  from saved_grows [OF reap.IH this] reap.hyps(2)
    saved_reapLoop [OF assms(4) _ _ assms(5) [OF run] mgr_run_typed [OF run assms(2,3)]]
  show ?case by (fastforce simp: ReapExpired_def timeNow_def)
qed

section \<open>Restart after any run\<close>

lemma saved_disk_holds:
  assumes "saved env c m tr" "disk_reads env (VMStateDir c)" "m_cfg m = c" "vms_typed m"
    and listed: "e_readDir env tr (VMStateDir c) = Inr entries"
  shows "disk_holds env m tr entries"
proof -
  have dir: "\<forall>k. (k, True) \<in> set entries \<longrightarrow> pathElem k"
    "\<forall>k. pathElem k \<and> filesAfter tr (metaPath (VMStateDir c) k) \<noteq> None \<longrightarrow> (k, True) \<in> set entries"
    using disk_reads_dir [OF assms(2), of tr] assms(1) unfolding listed saved_def sum.case by blast+
  have content: "e_readFile env tr' (metaPath (VMStateDir c) k) =
      (case mget (vms m) k of None \<Rightarrow> Inl NotExist | Some vm \<Rightarrow> Inr (Doc (encodeVM (e_zone env) vm)))"
    if "pathElem k" "extends isRead tr tr'" for k tr'
  proof -
    have "isRead x \<Longrightarrow> keepsMeta x" for x by (cases x) simp_all
    then have "grows tr tr'" using that(2) extends_mono by blast
    from saved_grows [OF assms(1) this] disk_reads_file [OF assms(2) _ that(1), of tr'] that(1) show ?thesis
      by (simp add: saved_def split: option.splits)
  qed
  have "(k, True) \<in> set entries" if "mget (vms m) k = Some vm" for k vm
    using assms(1,4) dir(2) that by (simp add: saved_def vms_typed_def)
  moreover have "marshalVM env vm = Inr (Doc (encodeVM (e_zone env) vm))" if "mget (vms m) k = Some vm" for k vm
    using assms(1) that by (simp add: saved_def marshalVM_def)
  ultimately show ?thesis
    using listed dir(1) content assms(3) by (auto simp: disk_holds_def metaPath_def split: option.splits)
qed

lemma New_from_disk:
  assumes "saved env c m tr" "disk_ok env (VMStateDir c)" "m_cfg m = c" "vms_typed m" "wf_mgr m" "quiescent m"
    and "\<bar>e_zone env\<bar> < 1440"
  shows "\<exists>m' tr'. New env c tr = (Inr m', tr') \<and> m_cfg m' = c \<and>
    mget (vms m') = mget (vms m) \<and> mget (slots m') = mget (slots m)"
proof (cases "e_readDir env tr (VMStateDir c)")
  case (Inl e)
  have "e = NotExist" "\<forall>k. pathElem k \<longrightarrow> filesAfter tr (metaPath (VMStateDir c) k) = None"
    using disk_reads_dir [of env "VMStateDir c" tr] assms(1,2) unfolding Inl disk_ok_def saved_def sum.case by blast+
  then have "mget (vms m) k = None" for k
    using assms(1,4) by (cases "mget (vms m) k") (fastforce simp: saved_def vms_typed_def)+
  moreover from this have "mget (slots m) s = None" for s
    using assms(6) by (cases "mget (slots m) s") (auto simp: quiescent_def)
  moreover have "e_err env t (MkdirAll p) = None" for t p using assms(2) by (simp add: disk_ok_def)
  ultimately show ?thesis
    by (simp add: New_def reconcile_def readDir_def perform_def Let_def Inl \<open>e = NotExist\<close> emptyManager_def fun_eq_iff)
next
  case (Inr entries)
  have "disk_reads env (VMStateDir c)" using assms(2) by (simp add: disk_ok_def)
  note disk = saved_disk_holds [OF assms(1) this assms(3,4) Inr]
  have "vms_roundtrip env m" using assms(1,4,7) by (simp add: vms_roundtrip_def vms_typed_def saved_def)
  from New_restores [OF assms(5,6) disk this] show ?thesis by (simp add: assms(3))
qed

text \<open>
  C17. The agent may be restarted at any time between two operations: after every run of API calls and
  reaper rounds, whichever of them failed, \<open>New\<close> reads from the disk exactly the VMs and the slots
  the agent had, as long as the disk works; VMs that were destroyed do not come back.
\<close>

theorem restart_after_any_run:
  assumes "disk_run env c m st tr" "0 \<le> capacityCPU env" "capacityCPU env \<le> 2 ^ 62" "0 \<le> R" "R \<le> 2 ^ 62"
    "\<And>tr m. m_cfg m = c \<Longrightarrow> capacityRAMMb env m tr = R"
    and "disk_ok env (VMStateDir c)" "pids_ok env" "\<bar>e_zone env\<bar> < 1440"
  shows "\<exists>m' tr'. New env c tr = (Inr m', tr') \<and> m_cfg m' = c \<and>
    mget (vms m') = mget (vms m) \<and> mget (slots m') = mget (slots m)"
proof -
  note run = disk_run_mgr_run [OF assms(1)]
  have inv: "mgr_inv env c R m" if "mgr_run env c m st tr" for m st tr by (rule mgr_run_inv [OF that assms(2-6)])
  then have cfg: "m_cfg m = c" if "mgr_run env c m st tr" for m st tr using that by (auto simp: mgr_inv_def)
  have wf: "wf_mgr m" "quiescent m" using inv [OF run] by (simp_all add: mgr_inv_def)
  note typed = mgr_run_typed [OF run assms(3,8)] and saved = disk_run_saved [OF assms(1,3,8,7) cfg]
  from New_from_disk [OF saved assms(7) cfg [OF run] typed wf assms(9)] show ?thesis .
qed

lemma host_disk: "disk_ok host d"
  by (rule disk_ok_example) (simp_all add: kernel_def)

theorem restart_after_any_run_witness:
  "\<exists>vm m st tr m' tr'. disk_run host example_cfg m st tr \<and> Get (ID vm) m = Some vm \<and>
     New host example_cfg tr = (Inr m', tr') \<and> Get (ID vm) m' = Some vm"
proof -
  let ?m = "emptyManager example_cfg"
  obtain vm m st tr where run: "Create host (fcBackend host example_cfg) ''team'' 60 2 4096 ?m
      NewFirecrackerBackend [] = Some (Inr vm, m, st, tr)" by (rule example_create)
  have "mget (vms ?m) k = None" for k by (simp add: emptyManager_def)
  moreover have "yearOk (e_zone host) (e_now host ([] @ [(TimeNow, None)]))"
    by (simp add: kernel_def calm_def yearOk_def localDay_def epochDay_def daysBeforeYear_def)
  ultimately have dr: "disk_run host example_cfg m st tr"
    by (intro disk_run.create [OF disk_run.start _ _ _ _ run]) simp_all
  have "mget (vms m) (ID vm) = Some vm"
    using fc.Create_success(6) [OF run] by (simp add: withVM_def mget_mput)
  moreover have "\<bar>e_zone host\<bar> < 1440" by (simp add: kernel_def calm_def)
  ultimately show ?thesis
    using restart_after_any_run [OF dr _ _ _ _ host_ram host_disk host_pids] dr
    by (fastforce simp: host_capacity Get_def)
qed

end
