(* ===== verification/Host_Rules.thy ===== *)
theory Host_Rules
  imports Lifecycle
begin

text \<open>
  The host's iptables rules in their order. \<open>Network_Effects\<close> counts the rules; the packet filter
  reads them from the first to the last, so what it does depends on their order. Here the rules after
  a trace are a list, \<open>-A\<close> puts a rule at its end and \<open>-D\<close> removes the first that is equal, and the
  list is followed through \<open>Boot\<close>, \<open>Create\<close>, \<open>Destroy\<close> and whole runs.
\<close>

section \<open>Rules as a list\<close>

fun chainEffect :: "call \<times> oserr option \<Rightarrow> rule list \<Rightarrow> rule list" where
  "chainEffect (Exec prog args, None) L =
     (if prog = ''iptables'' then
        (case iptSplit args of (op, r) \<Rightarrow>
           if op = ''-A'' then L @ [r] else if op = ''-D'' then remove1 r L else L)
      else L)"
| "chainEffect _ L = L"

definition chainAfter :: "rule list \<Rightarrow> trace \<Rightarrow> rule list" where
  "chainAfter L tr = fold chainEffect tr L"

lemma chainAfter_append [simp]: "chainAfter L (tr @ ev) = chainAfter (chainAfter L tr) ev"
  and chainAfter_Nil [simp]: "chainAfter L [] = L"
  and chainAfter_Cons [simp]: "chainAfter L (c # ev) = chainAfter (chainEffect c L) ev"
  by (simp_all add: chainAfter_def)

lemma chainEffect_failed [simp]: "chainEffect (c, Some e) L = L"
  by (cases c) simp_all

lemma chainEffect_off: "offNetwork c \<Longrightarrow> chainEffect (c, e) L = L"
  by (cases c; cases e) auto

lemma chainEffect_link [simp]:
  "chainEffect (LinkAdd n, e) L = L" "chainEffect (LinkDel n, e) L = L" "chainEffect (LinkByName n, e) L = L"
  "chainEffect (LinkSetUp n, e) L = L" "chainEffect (AddrAdd n a b, e) L = L"
  by (cases e; simp)+

text \<open>The list and the multiset of \<open>Network_Effects\<close> are two views of the same rules.\<close>

lemma mset_chainEffect: "mset (chainEffect x L) = ruleEffect x (mset L)"
proof (cases x)
  case (Pair c e)
  then show ?thesis
    by (cases c; cases e) (auto split: prod.splits)
qed

lemma mset_chainAfter: "mset (chainAfter L tr) = rulesAfter (mset L) tr"
  by (induction tr arbitrary: L) (simp_all add: mset_chainEffect)

lemma off_chain: "extends offNetwork tr tr' \<Longrightarrow> chainAfter L tr' = chainAfter L tr"
proof -
  assume "extends offNetwork tr tr'"
  then obtain ev where tr': "tr' = tr @ ev" and ev: "\<forall>c\<in>set ev. offNetwork (fst c)"
    by (auto simp: extends_def)
  have "chainAfter X ev = X" for X
    using ev by (induction ev arbitrary: X) (auto simp: chainEffect_off)
  then show ?thesis by (simp add: tr')
qed

lemmas neutral_chain = off_chain [OF neutral_off]

section \<open>Set-up and tear-down\<close>

definition vmRuleList :: "Config \<Rightarrow> NetConfig \<Rightarrow> rule list" where
  "vmRuleList cfg nc = map (snd \<circ> iptSplit) (setupFirewallSteps cfg nc)"

definition undo :: "rule list \<Rightarrow> rule list \<Rightarrow> rule list" where
  "undo R L = fold remove1 R L"

lemma undo_block: "set X \<inter> set R = {} \<Longrightarrow> undo R (X @ R @ Y) = X @ Y"
  unfolding undo_def
proof (induction R)
  case (Cons r R)
  then show ?case by (simp add: remove1_append)
qed simp

lemma undo_absent: "set X \<inter> set R = {} \<Longrightarrow> undo R X = X"
  unfolding undo_def by (induction R) (simp_all add: remove1_idem)

lemma chain_appends:
  "list_all (\<lambda>a. fst (iptSplit a) = ''-A'') steps \<Longrightarrow>
   chainAfter L (map (\<lambda>a. (iptCall a, None)) steps) = L @ map (snd \<circ> iptSplit) steps"
  by (induction steps arbitrary: L) (auto split: prod.splits)

lemma chain_deletes:
  assumes "net_ok env (mset L) T" "list_all (\<lambda>a. fst (iptSplit a) = ''-D'') steps"
    "runAllSteps env steps f tr = (r, tr')"
  shows "chainAfter L tr' = undo (map (snd \<circ> iptSplit) steps) (chainAfter L tr)"
  using assms(2,3)
proof (induction steps arbitrary: f tr)
  case (Cons a steps)
  let ?e = "e_err env tr (iptCall a)"
  from Cons.prems obtain f' where
    rest: "runAllSteps env steps f' (tr @ [(iptCall a, ?e)]) = (r, tr')"
    by (auto simp: runCmd_def perform_def Let_def)
  obtain r where r: "iptSplit a = (''-D'', r)"
    using Cons.prems(1) by (cases "iptSplit a") auto
  have "chainAfter L (tr @ [(iptCall a, ?e)]) = remove1 r (chainAfter L tr)"
  proof (cases ?e)
    case (Some x)
    with assms(1) r have "r \<notin># mset (chainAfter L tr)"
      unfolding net_ok_def mset_chainAfter by force
    with Some show ?thesis by (simp add: remove1_idem)
  qed (simp add: r)
  with Cons.IH [OF _ rest] Cons.prems(1) show ?case
    by (simp add: r undo_def del: chainAfter_append)
qed (simp add: undo_def)

lemma teardownFirewall_chain:
  assumes "net_ok env (mset L) T"
  shows "chainAfter L (snd (teardownFirewall env c nc tr)) = undo (vmRuleList c nc) (chainAfter L tr)"
  using chain_deletes [OF assms teardown_steps_delete, of c nc None tr]
  by (cases "teardownFirewall env c nc tr")
    (simp add: teardownFirewall_def vmRuleList_def teardown_rules)

lemma teardownTapDevice_chain [simp]: "chainAfter L (snd (teardownTapDevice env nc tr)) = chainAfter L tr"
  by (auto simp: teardownTapDevice_def perform_def Let_def split: option.splits)

lemma setupTapDevice_chain [simp]: "chainAfter L (snd (setupTapDevice env nc tr)) = chainAfter L tr"
  by (auto simp: setupTapDevice_def perform_def Let_def performIgnore_eq split: option.splits)

lemma setupFirewall_chain:
  assumes "setupFirewall env c nc tr = (None, tr')"
  shows "chainAfter L tr' = chainAfter L tr @ vmRuleList c nc"
proof -
  let ?sys = "(Exec ''sysctl'' [''-w'', ''net.ipv4.ip_forward=1''], None :: oserr option)"
  from assms have "runSteps env (setupFirewallSteps c nc) (tr @ [?sys]) = (None, tr')"
    by (auto simp: setupFirewall_def runCmd_def perform_def Let_def wrapErr_def split: option.splits)
  from runSteps_ok [OF this] show ?thesis
    by (simp add: chain_appends setup_steps_append vmRuleList_def)
qed

section \<open>Boot\<close>

text \<open>The stages at which \<open>Boot\<close> fails without taking its rules and its tap device away again.\<close>

definition leakyStages :: "string set" where
  "leakyStages = {''firewall setup'', ''create vm state dir'', ''open pty for console'', ''open console log''}"

definition addsOrUndoes :: "rule list \<Rightarrow> error \<Rightarrow> rule list \<Rightarrow> rule list \<Rightarrow> bool" where
  "addsOrUndoes R err X Y \<longleftrightarrow>
     (case err of None \<Rightarrow> Y = X @ R | Some e \<Rightarrow> stage e \<notin> leakyStages \<longrightarrow> Y = X \<or> Y = undo R (X @ R))"

lemma bootNetwork_chain:
  assumes "net_ok env (mset L) T" "bootNetwork env c nc tr = (err, tr')"
  shows "addsOrUndoes (vmRuleList c nc) err (chainAfter L tr) (chainAfter L tr')"
proof -
  obtain e1 tr1 where tap: "setupTapDevice env nc tr = (e1, tr1)" by (metis surj_pair)
  obtain e2 tr2 where fw: "setupFirewall env c nc tr1 = (e2, tr2)" by (metis surj_pair)
  obtain e3 tr3 where cap: "setupBandwidthCap env nc (BandwidthCapMbit c) tr2 = (e3, tr3)" by (metis surj_pair)
  have 1: "chainAfter L tr1 = chainAfter L tr" using setupTapDevice_chain [of L env nc tr] tap by simp
  have 2: "e2 = None \<Longrightarrow> chainAfter L tr2 = chainAfter L tr @ vmRuleList c nc"
    using setupFirewall_chain fw 1 by auto
  have 3: "chainAfter L tr3 = chainAfter L tr2"
    using neutral_chain [OF setupBandwidthCap_neutral [of tr2 env nc]] cap by (metis snd_conv)
  show ?thesis
    using assms(2) 1 2 3
    by (auto simp: bootNetwork_def tap fw cap addsOrUndoes_def leakyStages_def
      teardownFirewall_chain [OF assms(1)] split: option.splits)
qed

lemma abandon_chain:
  assumes "net_ok env (mset L) T"
  shows "chainAfter L (abandonMachine env c nc h tr) = undo (vmRuleList c nc) (chainAfter L tr)"
    "chainAfter L (abandonGuest env c nc h tr) = undo (vmRuleList c nc) (chainAfter L tr)"
  by (simp_all add: abandonMachine_def abandonGuest_def Let_def teardownFirewall_chain [OF assms]
    performIgnore_eq chainEffect_off)

lemma bootMachine_chain:
  assumes "net_ok env (mset L) T" "bootMachine env c vm nc rootfs tr = ((Some e, h), tr')"
  shows "chainAfter L tr' = undo (vmRuleList c nc) (chainAfter L tr)"
  using assms(2)
  by (auto simp: bootMachine_def perform_def Let_def abandon_chain [OF assms(1)] chainEffect_off
    split: option.splits)

lemma fcBoot_chain:
  assumes "net_ok env (mset L) T" "fcBoot env c vm nc rootfs st tr = Some (err, vm', st', tr')"
  shows "addsOrUndoes (vmRuleList c nc) err (chainAfter L tr) (chainAfter L tr')"
  using assms(2)
proof (cases rule: fcBoot_cases)
  case network
  with bootNetwork_chain [OF assms(1)] show ?thesis by simp
next
  case (console tr1 e)
  with bootConsole_err [OF console(2)] show ?thesis by (auto simp: addsOrUndoes_def leakyStages_def)
next
  case (machine tr1 tr2 h e)
  have "chainAfter L tr2 = chainAfter L tr @ vmRuleList c nc"
    using bootNetwork_chain [OF assms(1) machine(1)]
      neutral_chain [OF bootConsole_neutral [of tr1 env c vm]] machine(2) by (simp add: addsOrUndoes_def)
  with bootMachine_chain [OF assms(1) machine(3)] machine(4) show ?thesis by (simp add: addsOrUndoes_def)
next
  case (guest tr1 tr2 tr3 h pid tr4 tr5 e)
  have "chainAfter L tr5 = chainAfter L tr @ vmRuleList c nc"
    using bootNetwork_chain [OF assms(1) guest(1)] bootConsole_neutral [of tr1 env c vm] guest(2)
      bootMachine_ok(1) [OF guest(3)] bootCgroup_neutral [of tr3 env vm h] guest(4)
      waitForDockerReady_trace [OF guest(5)]
    by (simp add: addsOrUndoes_def waitEvents_def neutral_chain del: neutral_def)
  with guest(6,9) show ?thesis by (simp add: addsOrUndoes_def abandon_chain [OF assms(1)])
next
  case (ready tr1 tr2 tr3 h pid tr4)
  show ?thesis
    using bootNetwork_chain [OF assms(1) ready(1)] bootConsole_neutral [of tr1 env c vm] ready(2)
      bootMachine_ok(1) [OF ready(3)] bootCgroup_neutral [of tr3 env vm h] ready(4)
      waitForDockerReady_trace [OF ready(5)] ready(6)
    by (simp add: addsOrUndoes_def waitEvents_def del: neutral_def) (metis neutral_chain)
qed

section \<open>The rules of different slots\<close>

lemma vmRuleList_eq:
  "vmRuleList c nc =
     [(''nat'', [''PREROUTING'', ''-p'', ''tcp'', ''-s'', WireguardCIDR c, ''--dport'', Itoa (DockerPort nc),
        ''-j'', ''DNAT'', ''--to-destination'', IP_String (GuestIP nc) @ '':2375'']),
      (''nat'', [''POSTROUTING'', ''-s'', IP_String (GuestIP nc) @ ''/32'', ''!'', ''-o'', TapName nc,
        ''-j'', ''MASQUERADE'']),
      (''filter'', [''INPUT'', ''-p'', ''tcp'', ''--dport'', Itoa (DockerPort nc), ''!'', ''-s'', WireguardCIDR c,
        ''-j'', ''DROP'']),
      (''filter'', [''FORWARD'', ''-s'', WireguardCIDR c, ''-o'', TapName nc, ''-j'', ''ACCEPT'']),
      (''filter'', [''FORWARD'', ''-o'', TapName nc, ''-m'', ''state'', ''--state'', ''NEW'',
        ''!'', ''-s'', WireguardCIDR c, ''-j'', ''DROP'']),
      (''filter'', [''FORWARD'', ''-o'', TapName nc, ''-m'', ''state'', ''--state'', ''ESTABLISHED,RELATED'',
        ''-j'', ''ACCEPT'']),
      (''filter'', [''FORWARD'', ''-i'', TapName nc, ''-j'', ''ACCEPT''])]"
  by (simp add: vmRuleList_def setupFirewallSteps_def Let_def)

abbreviation slotRules :: "Config \<Rightarrow> int \<Rightarrow> rule list" where
  "slotRules c s \<equiv> vmRuleList c (deriveNetConfig c s)"

lemma slotRules_disjoint:
  assumes "0 \<le> a" "a < 2 ^ 30" "0 \<le> b" "b < 2 ^ 30" "a \<noteq> b"
  shows "set (slotRules c a) \<inter> set (slotRules c b) = {}"
proof -
  have "i64 (DockerPortBase c + a) \<noteq> i64 (DockerPortBase c + b)"
    using assms by (simp add: i64_add_inj)
  then show ?thesis using assms(5) by (auto simp: vmRuleList_eq Itoa_inj)
qed

section \<open>Create and Destroy\<close>

definition leaky :: "gerr + VM \<Rightarrow> bool" where
  "leaky r \<longleftrightarrow> (\<exists>e. r = Inl (Wrap ''boot vm'' e) \<and> stage e \<in> leakyStages)"

lemma Create_success_chain:
  assumes "net_ok env (mset L) T" "m_cfg m = c"
    "Create env (fcBackend env c) teamID ttl vcpu ramMb m st tr = Some (Inr vm, m', st', tr')"
  shows "chainAfter L tr' = chainAfter L tr @ slotRules c (Slot vm)"
proof -
  obtain tr1 tr2 vm0 root where tr1: "extends neutral tr tr1" and tr2: "extends offNetwork tr2 tr'"
    and boot: "fcBoot env c vm0 (deriveNetConfig c (fst (freeSlot env m))) root st tr1 = Some (None, vm, st', tr2)"
    using Create_success_boot [OF assms(3)] assms(2) by (metis Backend.select_convs(1) fcBackend_def)
  have "Slot vm = fst (freeSlot env m)"
    using fc.Create_success(5) [OF assms(3)] by (auto simp: reserved_def)
  with fcBoot_chain [OF assms(1) boot] neutral_chain [OF tr1] off_chain [OF tr2] show ?thesis
    by (simp add: addsOrUndoes_def del: NetConfig_simps)
qed

lemma Create_error_chain:
  assumes "net_ok env (mset L) T" "m_cfg m = c" "\<not> leaky (Inl e)"
    "Create env (fcBackend env c) teamID ttl vcpu ramMb m st tr = Some (Inl e, m', st', tr')"
  obtains (same) "chainAfter L tr' = chainAfter L tr" "tapsAfter T tr' = tapsAfter T tr"
  | (undone) R where "R = slotRules c (fst (freeSlot env m))" "snd (freeSlot env m)"
      "chainAfter L tr' = undo R (chainAfter L tr @ R)" "tapsAfter T tr' = tapsAfter T tr"
  using assms(4)
proof (cases rule: Create_error_boot)
  case early
  with same show ?thesis by (simp add: neutral_chain neutral_effects)
next
  case (notBooted tr1 x vm' tr2 y)
  then have boot: "fcBoot env c (reserved env teamID (effTTL m ttl) vcpu ramMb (fst (freeSlot env m)) tr)
       (deriveNetConfig c (fst (freeSlot env m)))
       (Join [VMStateDir c, newVMID (e_now env tr), ''rootfs.ext4'']) st tr1 = Some (Some x, vm', st', tr2)"
    using assms(2) by (simp add: fcBackend_def)
  have clean: "stage x \<notin> leakyStages" using assms(3) notBooted(2) by (simp add: leaky_def)
  with fcBoot_failure [OF assms(1) boot] neutral_effects [OF notBooted(1)] notBooted(5)
  have "tapsAfter T tr' = tapsAfter T tr" by (auto simp: leftBehind_def leakyStages_def tapEffect_off)
  moreover from clean fcBoot_chain [OF assms(1) boot] neutral_chain [OF notBooted(1), of L] notBooted(5)
  have "chainAfter L tr' = chainAfter L tr \<or>
      chainAfter L tr' = undo (slotRules c (fst (freeSlot env m))) (chainAfter L tr @ slotRules c (fst (freeSlot env m)))"
    by (auto simp: addsOrUndoes_def chainEffect_off simp del: NetConfig_simps)
  ultimately show ?thesis using same undone notBooted(3) by blast
qed

lemma Destroy_chain:
  assumes "net_ok env (mset L) T" "m_cfg m = c" "Destroy env (fcBackend env c) k m st tr = (e, m', st', tr')"
  obtains (failed) "m' = m" "chainAfter L tr' = chainAfter L tr" "tapsAfter T tr' = tapsAfter T tr"
  | (gone) vm where "mget (vms m) k = Some vm" "m' = destroyLocked k vm m"
      "chainAfter L tr' = undo (slotRules c (Slot vm)) (chainAfter L tr)"
      "tapsAfter T tr' = tapsAfter T tr - {TapName (deriveNetConfig c (Slot vm))}"
proof (cases "mget (vms m) k")
  case None
  with assms(3) failed show ?thesis by (simp add: Destroy_def)
next
  case (Some vm)
  obtain err st1 tr1 where stop: "fcStop env vm st tr = (err, st1, tr1)" by (metis prod_cases3)
  have 1: "chainAfter L tr1 = chainAfter L tr" by (rule neutral_chain [OF fcStop_neutral [OF stop]])
  have "chainAfter L (destroyCleanup env c vm tr1) = undo (slotRules c (Slot vm)) (chainAfter L tr)"
    by (simp add: destroyCleanup_def Let_def removeCgroup_def removeVMDir_def perform_def chainEffect_off
      teardownFirewall_chain [OF assms(1)] 1 del: NetConfig_simps)
  moreover note neutral_effects(2) [OF fcStop_neutral [OF stop], of T] destroyCleanup_effect(2) [OF assms(1), of c vm tr1]
  ultimately show ?thesis
    using assms(2,3) Some stop 1
    by (cases err) (auto simp: Destroy_def fcBackend_def simp del: NetConfig_simps intro: failed gone [OF Some])
qed

section \<open>The network of the table\<close>

text \<open>
  The rules and tap devices of a list of VMs. The order of the rules on the host is the order in which the
  VMs were created; the table's own order is a matter of the map, so the VMs are listed apart.
\<close>

abbreviation netOfVM :: "Config \<Rightarrow> string \<times> VM \<Rightarrow> NetConfig" where
  "netOfVM c e \<equiv> deriveNetConfig c (Slot (snd e))"

definition tableRules :: "Config \<Rightarrow> (string, VM) gomap \<Rightarrow> rule list" where
  "tableRules c es = concat (map (\<lambda>e. slotRules c (Slot (snd e))) es)"

definition tableTaps :: "Config \<Rightarrow> (string, VM) gomap \<Rightarrow> string set" where
  "tableTaps c es = (\<lambda>e. TapName (netOfVM c e)) ` set es"

text \<open>The rules \<open>L\<close> and devices \<open>T\<close> that the host has of its own are none of the agent's.\<close>

definition foreign :: "Config \<Rightarrow> rule list \<Rightarrow> string set \<Rightarrow> bool" where
  "foreign c L T \<longleftrightarrow>
     (\<forall>s. set L \<inter> set (slotRules c s) = {} \<and> TapName (deriveNetConfig c s) \<notin> T)"

definition mirrors ::
  "Config \<Rightarrow> rule list \<Rightarrow> string set \<Rightarrow> (string, VM) gomap \<Rightarrow> Manager \<Rightarrow> trace \<Rightarrow> bool" where
  "mirrors c L T es m tr \<longleftrightarrow> wf_map es \<and> mget es = mget (vms m) \<and>
     chainAfter L tr = L @ tableRules c es \<and> tapsAfter T tr = T \<union> tableTaps c es"

text \<open>VMs with slots of their own that have a network plan.\<close>

definition slotted :: "(string, VM) gomap \<Rightarrow> bool" where
  "slotted es \<longleftrightarrow> distinct (map (\<lambda>e. Slot (snd e)) es) \<and> (\<forall>e\<in>set es. 0 \<le> Slot (snd e) \<and> Slot (snd e) < 2 ^ 30)"

lemma slotted_table:
  assumes "mgr_inv env c R m" "capacityCPU env \<le> 2 ^ 30" "wf_map es" "mget es = mget (vms m)"
  shows "slotted es"
proof -
  have wf: "wf_mgr m" using assms(1) by (simp add: mgr_inv_def)
  have get: "mget (vms m) (fst e) = Some (snd e)" if "e \<in> set es" for e
    using gm.entries_iff [OF assms(3), of "fst e" "snd e"] assms(4) that by simp
  have "inj_on (\<lambda>e. Slot (snd e)) (set es)"
  proof (rule inj_onI)
    fix x y assume x: "x \<in> set es" and y: "y \<in> set es" and eq: "Slot (snd x) = Slot (snd y)"
    have "fst x = fst y" by (rule wf_mgr_slots_inj [OF wf get [OF x] get [OF y] eq])
    with get [OF x] get [OF y] show "x = y" by (simp add: prod_eq_iff)
  qed
  moreover have "distinct es" using assms(3) by (simp add: wf_map_def distinct_map)
  moreover have "0 \<le> Slot (snd e) \<and> Slot (snd e) < 2 ^ 30" if "e \<in> set es" for e
    using get [OF that] assms(1,2) by (fastforce simp: mgr_inv_def)
  ultimately show ?thesis by (simp add: slotted_def distinct_map)
qed

lemma slotted_neq: "slotted (xs @ e # ys) \<Longrightarrow> x \<in> set (xs @ ys) \<Longrightarrow> Slot (snd x) \<noteq> Slot (snd e)"
  by (auto simp: slotted_def) (metis image_eqI)+

lemma mput_fresh: "mget m k = None \<Longrightarrow> mput k v m = m @ [(k, v)]"
  by (induction m) (auto split: if_splits)

lemma table_mput:
  assumes "mget es k = None"
  shows "tableRules c (mput k vm es) = tableRules c es @ slotRules c (Slot vm)"
    "tableTaps c (mput k vm es) = insert (TapName (deriveNetConfig c (Slot vm))) (tableTaps c es)"
  using assms by (simp_all add: tableRules_def tableTaps_def mput_fresh)

lemma mdel_split:
  assumes "wf_map m" "mget m k = Some v"
  obtains as bs where "m = as @ (k, v) # bs" "mdel k m = as @ bs"
proof -
  obtain as bs where m: "m = as @ (k, v) # bs"
    using assms(2) by (meson map_of_SomeD split_list)
  with assms(1) have "k \<notin> fst ` set as" "k \<notin> fst ` set bs" by (auto simp: wf_map_def)
  then have "filter (\<lambda>e. k \<noteq> fst e) as = as" "filter (\<lambda>e. k \<noteq> fst e) bs = bs"
    by (auto simp: filter_id_conv)
  then have "mdel k m = as @ bs"
    by (simp add: m AList.delete_eq case_prod_unfold)
  with m that show ?thesis by blast
qed

text \<open>A slot that no listed VM has is not touched by their network, nor by the host's own.\<close>

lemma fresh_slot_rules:
  assumes "foreign c L T" "0 \<le> s" "s < 2 ^ 30"
    and "\<forall>e\<in>set es. 0 \<le> Slot (snd e) \<and> Slot (snd e) < 2 ^ 30 \<and> Slot (snd e) \<noteq> s"
  shows "set (L @ tableRules c es) \<inter> set (slotRules c s) = {}"
    "TapName (deriveNetConfig c s) \<notin> T \<union> tableTaps c es"
proof -
  have "\<forall>e\<in>set es. set (slotRules c (Slot (snd e))) \<inter> set (slotRules c s) = {}"
    using slotRules_disjoint assms(2-4) by blast
  with assms(1) show "set (L @ tableRules c es) \<inter> set (slotRules c s) = {}"
    unfolding foreign_def tableRules_def by (simp add: Int_Un_distrib2 UN_extend_simps(4) del: NetConfig_simps)
  show "TapName (deriveNetConfig c s) \<notin> T \<union> tableTaps c es"
    using assms(1,4) by (auto simp: foreign_def tableTaps_def Itoa_inj)
qed

lemma undo_table:
  assumes "foreign c L T" "slotted es" "wf_map es" "mget es k = Some vm"
  shows "undo (slotRules c (Slot vm)) (L @ tableRules c es) = L @ tableRules c (mdel k es)"
    "T \<union> tableTaps c es - {TapName (deriveNetConfig c (Slot vm))} = T \<union> tableTaps c (mdel k es)"
proof -
  obtain as bs where es: "es = as @ (k, vm) # bs" and del: "mdel k es = as @ bs"
    using mdel_split [OF assms(3,4)] .
  have vm: "0 \<le> Slot vm" "Slot vm < 2 ^ 30" using assms(2) by (simp_all add: slotted_def es)
  have "0 \<le> Slot (snd e) \<and> Slot (snd e) < 2 ^ 30 \<and> Slot (snd e) \<noteq> Slot vm" if "e \<in> set (as @ bs)" for e
    using slotted_neq [OF assms(2) [unfolded es] that] assms(2) that by (auto simp: slotted_def es)
  then have other: "\<forall>e\<in>set (as @ bs). 0 \<le> Slot (snd e) \<and> Slot (snd e) < 2 ^ 30 \<and> Slot (snd e) \<noteq> Slot vm"
    by blast
  have "set (L @ tableRules c as) \<inter> set (slotRules c (Slot vm)) = {}"
    using fresh_slot_rules(1) [OF assms(1) vm, of as] other by simp
  from undo_block [OF this, of "tableRules c bs"]
  show "undo (slotRules c (Slot vm)) (L @ tableRules c es) = L @ tableRules c (mdel k es)"
    unfolding del by (simp add: tableRules_def es)
  have "tableTaps c es = insert (TapName (deriveNetConfig c (Slot vm))) (tableTaps c (mdel k es))"
    unfolding del by (simp add: tableTaps_def es image_Un del: NetConfig_simps)
  with fresh_slot_rules(2) [OF assms(1) vm other, folded del]
  show "T \<union> tableTaps c es - {TapName (deriveNetConfig c (Slot vm))} = T \<union> tableTaps c (mdel k es)"
    by auto
qed

text \<open>What an operation does to the list: it follows the table entry for entry.\<close>

lemma mirrors_Destroy:
  assumes "net_ok env (mset L) T" "foreign c L T" "mgr_inv env c R m" "capacityCPU env \<le> 2 ^ 30"
    "mirrors c L T es m tr" "Destroy env (fcBackend env c) k m st tr = (e, m', st', tr')"
  obtains es' where "mirrors c L T es' m' tr'" "es = vms m \<longrightarrow> es' = vms m'"
proof -
  have cfg: "m_cfg m = c" using assms(3) by (simp add: mgr_inv_def)
  have es: "wf_map es" "mget es = mget (vms m)" using assms(5) by (simp_all add: mirrors_def)
  from assms(1) cfg assms(6) show ?thesis
  proof (cases rule: Destroy_chain)
    case failed
    with assms(5) show ?thesis by (intro that [of es]) (simp_all add: mirrors_def)
  next
    case (gone vm)
    have "mget es k = Some vm" using es(2) gone(1) by simp
    note undo = undo_table [OF assms(2) slotted_table [OF assms(3,4) es] es(1) this]
    have "mirrors c L T (mdel k es) m' tr'"
      using undo gone assms(5)
      by (simp add: mirrors_def destroyLocked_def mget_mdel es fun_eq_iff del: NetConfig_simps)
    then show ?thesis by (rule that) (simp add: gone(2) destroyLocked_def)
  qed
qed

lemma mirrors_reapLoop:
  assumes "net_ok env (mset L) T" "foreign c L T" "capacityCPU env \<le> 2 ^ 30"
  shows "reapLoop env (fcBackend env c) ids m st tr = (r, m', st', tr') \<Longrightarrow> mgr_inv env c R m \<Longrightarrow>
    mirrors c L T es m tr \<Longrightarrow> \<exists>es'. mirrors c L T es' m' tr' \<and> (es = vms m \<longrightarrow> es' = vms m')"
proof (induction ids arbitrary: m st tr r es)
  case (Cons k ids)
  obtain e m1 st1 tr1 where d: "Destroy env (fcBackend env c) k m st tr = (e, m1, st1, tr1)"
    by (metis prod_cases4)
  obtain es1 where es1: "mirrors c L T es1 m1 tr1" "es = vms m \<longrightarrow> es1 = vms m1"
    using mirrors_Destroy [OF assms(1,2) Cons.prems(2) assms(3) Cons.prems(3) d] by blast
  obtain r1 where "reapLoop env (fcBackend env c) ids m1 st1 tr1 = (r1, m', st', tr')"
    using Cons.prems(1) by (auto simp: d split: option.splits prod.splits)
  from Cons.IH [OF this mgr_inv_Destroy [OF Cons.prems(2) d] es1(1)] es1(2) show ?case by metis
qed auto

lemma mirrors_Create:
  assumes "net_ok env (mset L) T" "foreign c L T" "mgr_inv env c R m" "capacityCPU env \<le> 2 ^ 30"
    "mirrors c L T es m tr" "\<not> leaky r" "mget (vms m) (newVMID (e_now env tr)) = None"
    "Create env (fcBackend env c) teamID ttl vcpu ramMb m st tr = Some (r, m', st', tr')"
  obtains es' where "mirrors c L T es' m' tr'" "es = vms m \<longrightarrow> es' = vms m'"
proof (cases r)
  case (Inl e)
  note run = assms(8) [unfolded Inl] and clean = assms(6) [unfolded Inl]
  have wf: "wf_mgr m" and cfg: "m_cfg m = c" using assms(3) by (simp_all add: mgr_inv_def)
  have es: "wf_map es" "mget es = mget (vms m)" using assms(5) by (simp_all add: mirrors_def)
  have m': "m' = m" by (rule fc.Create_error [OF run])
  from assms(1) cfg clean run have "chainAfter L tr' = chainAfter L tr \<and> tapsAfter T tr' = tapsAfter T tr"
  proof (cases rule: Create_error_chain)
    case (undone R)
    let ?s = "fst (freeSlot env m)"
    have "Slot (snd e) \<noteq> ?s" if "e \<in> set es" for e
      using gm.entries_iff [OF es(1), of "fst e" "snd e"] that es(2) wf_mgrD(4) [OF wf, of "fst e" "snd e"]
        freeSlot_free [OF undone(2)] by auto
    with slotted_table [OF assms(3,4) es] freeSlot_bounds [OF undone(2)] assms(4)
    have "set (L @ tableRules c es) \<inter> set R = {}"
      unfolding undone(1) by (intro fresh_slot_rules [OF assms(2)]) (auto simp: slotted_def)
    from undo_block [OF this, of "[]"] undone(3,4) assms(5) show ?thesis by (simp add: mirrors_def)
  qed simp
  with assms(5) show ?thesis by (intro that [of es]) (simp_all add: mirrors_def m')
next
  case (Inr vm)
  note run = assms(8) [unfolded Inr]
  have cfg: "m_cfg m = c" using assms(3) by (simp add: mgr_inv_def)
  have es: "wf_map es" "mget es = mget (vms m)" using assms(5) by (simp_all add: mirrors_def)
  have "ID vm = newVMID (e_now env tr)" using fc.Create_success(5) [OF run] by (auto simp: reserved_def)
  with assms(7) es(2) have fresh: "mget es (ID vm) = None" by simp
  have "mirrors c L T (mput (ID vm) vm es) m' tr'"
    using Create_success_chain [OF assms(1) cfg run] Create_success_network(2) [OF assms(1) run]
      fc.Create_success(6) [OF run] assms(5) table_mput [OF fresh]
    by (simp add: mirrors_def cfg withVM_def mget_mput fun_eq_iff del: NetConfig_simps)
  then show ?thesis by (rule that) (simp add: fc.Create_success(6) [OF run] withVM_def)
qed

section \<open>Every run\<close>

text \<open>
  The runs of \<open>mgr_run\<close> in which nothing but the agent changes iptables rules and network devices and no
  \<open>Boot\<close> fails at a stage that leaves its network behind. The host starts with rules \<open>L\<close> and devices \<open>T\<close>
  of its own.
\<close>

inductive net_run :: "env \<Rightarrow> Config \<Rightarrow> Manager \<Rightarrow> FcState \<Rightarrow> trace \<Rightarrow> bool" for env c where
  start: "extends offNetwork [] tr \<Longrightarrow> net_run env c (emptyManager c) NewFirecrackerBackend tr"
| other: "net_run env c m st tr \<Longrightarrow> extends offNetwork tr tr' \<Longrightarrow> net_run env c m st tr'"
| create: "net_run env c m st tr \<Longrightarrow> vcpu < 2 ^ 62 \<Longrightarrow> ramMb < 2 ^ 62 \<Longrightarrow>
    mget (vms m) (newVMID (e_now env tr)) = None \<Longrightarrow> \<not> leaky r \<Longrightarrow>
    Create env (fcBackend env c) teamID ttl vcpu ramMb m st tr = Some (r, m', st', tr') \<Longrightarrow>
    net_run env c m' st' tr'"
| destroy: "net_run env c m st tr \<Longrightarrow>
    Destroy env (fcBackend env c) k m st tr = (e, m', st', tr') \<Longrightarrow> net_run env c m' st' tr'"
| reap: "net_run env c m st tr \<Longrightarrow>
    ReapExpired env (fcBackend env c) m st tr = (ids, m', st', tr') \<Longrightarrow> net_run env c m' st' tr'"

lemma net_run_mgr_run: "net_run env c m st tr \<Longrightarrow> mgr_run env c m st tr"
proof (induction rule: net_run.induct)
  case (other m st tr tr')
  then show ?case using extends_D mgr_run.other by blast
qed (blast intro: mgr_run.intros)+

text \<open>The host of a run: its capacity, and that its own rules and devices are none of the agent's.\<close>

definition host_ok :: "env \<Rightarrow> Config \<Rightarrow> int \<Rightarrow> rule list \<Rightarrow> string set \<Rightarrow> bool" where
  "host_ok env c R L T \<longleftrightarrow> 0 \<le> capacityCPU env \<and> capacityCPU env \<le> 2 ^ 30 \<and> 0 \<le> R \<and> R \<le> 2 ^ 62 \<and>
     (\<forall>m tr. m_cfg m = c \<longrightarrow> capacityRAMMb env m tr = R) \<and> net_ok env (mset L) T \<and> foreign c L T"

lemma host_ok_inv:
  assumes "host_ok env c R L T" "mgr_run env c m st tr"
  shows "mgr_inv env c R m"
  using assms(1) by (intro mgr_run_inv [OF assms(2)]) (auto simp: host_ok_def)

lemma net_run_mirrors:
  assumes "host_ok env c R L T" "net_run env c m st tr"
  shows "mirrors c L T (vms m) m tr"
  using assms(2)
proof (induction rule: net_run.induct)
  case (start tr)
  from off_chain [OF start] off_effects(2) [OF start] show ?case
    by (simp add: mirrors_def tableRules_def tableTaps_def emptyManager_def)
next
  case (other m st tr tr')
  with off_chain off_effects(2) show ?case unfolding mirrors_def by metis
next
  case (create m st tr vcpu ramMb r teamID ttl m' st' tr')
  have "net_ok env (mset L) T" "foreign c L T" "capacityCPU env \<le> 2 ^ 30" using assms(1) by (simp_all add: host_ok_def)
  from mirrors_Create [OF this(1,2) host_ok_inv [OF assms(1) net_run_mgr_run [OF create.hyps(1)]] this(3)
      create.IH create.hyps(5,4,6)]
  show ?case by metis
next
  case (destroy m st tr k e m' st' tr')
  have "net_ok env (mset L) T" "foreign c L T" "capacityCPU env \<le> 2 ^ 30" using assms(1) by (simp_all add: host_ok_def)
  from mirrors_Destroy [OF this(1,2) host_ok_inv [OF assms(1) net_run_mgr_run [OF destroy.hyps(1)]] this(3)
      destroy.IH destroy.hyps(2)]
  show ?case by metis
next
  case (reap m st tr ids m' st' tr')
  have "mirrors c L T (vms m) m (tr @ [(TimeNow, None)])"
    using reap.IH by (simp add: mirrors_def)
  with reap.hyps mirrors_reapLoop [OF _ _ _ _ host_ok_inv [OF assms(1) net_run_mgr_run]] assms(1) show ?case
    by (fastforce simp: host_ok_def ReapExpired_def timeNow_def)
qed

text \<open>
  After every run of API calls and reaper rounds in which no set-up was left half undone, the host
  has exactly its own rules followed by the seven rules of each VM in the table, in the order
  in which the VMs were created, and exactly its own devices and one tap device for each VM in the table:
  failed creates, destroyed and reaped VMs have left nothing.
\<close>

theorem run_network_mirrors_table:
  assumes "host_ok env c R L T" "net_run env c m st tr"
  shows "chainAfter L tr = L @ concat (map (\<lambda>e. slotRules c (Slot (snd e))) (vms m)) \<and>
    tapsAfter T tr = T \<union> (\<lambda>e. TapName (deriveNetConfig c (Slot (snd e)))) ` set (vms m)"
  using net_run_mirrors [OF assms] by (simp add: mirrors_def tableRules_def tableTaps_def)

lemma host_host_ok: "host_ok host example_cfg 8192 [] {}"
  by (simp add: host_ok_def host_capacity host_ram kernel_net_ok foreign_def)

lemma pad_to_one: "\<exists>n. i64 (int (k + n)) = 1"
proof
  let ?n = "nat ((1 - int k) mod 2 ^ 64)"
  have "(int (k + ?n) + 2 ^ 63) mod 2 ^ 64 = ((int k + 2 ^ 63) + (1 - int k) mod 2 ^ 64) mod (2 ^ 64 :: int)"
    by (simp add: algebra_simps)
  also have "\<dots> = ((int k + 2 ^ 63) + (1 - int k)) mod 2 ^ 64" by (rule mod_add_right_eq)
  finally show "i64 (int (k + ?n)) = 1" by (simp add: i64_def)
qed

text \<open>Two VMs on the example host.\<close>

lemma host_two_vms:
  obtains v0 v1 m st tr where "net_run host example_cfg m st tr" "vms m = [(ID v0, v0), (ID v1, v1)]"
    "Slot v0 = 0" "Slot v1 = 1"
proof -
  let ?m = "emptyManager example_cfg" and ?B = "fcBackend host example_cfg"
  obtain v0 m0 st0 tr0 where run0: "Create host ?B ''team'' 60 2 4096 ?m NewFirecrackerBackend [] = Some (Inr v0, m0, st0, tr0)"
    by (rule example_create)
  have fresh0: "mget (vms ?m) k = None" for k by (simp add: emptyManager_def)
  have "no_wrap ?m 2 4096" by (simp add: no_wrap_def empty_wf)
  note spec0 = Create_success_spec [OF run0 empty_wf(1) this fresh0]
  have slot0: "Slot v0 = 0"
    using fc.Create_success(5) [OF run0] by (auto simp: empty_freeSlot host_capacity)
  have m0: "vms m0 = [(ID v0, v0)]" "slots m0 = [(0, ID v0)]" "m_cfg m0 = example_cfg" "ID v0 = newVMID 0"
    using spec0(1,2) slot0 by (simp_all add: withVM_def emptyManager_def kernel_def calm_def)
  have nr0: "net_run host example_cfg m0 st0 tr0"
    by (rule net_run.create [OF net_run.start _ _ fresh0 _ run0]) (simp_all add: leaky_def)
  obtain n where n: "i64 (int (length tr0 + n)) = 1" using pad_to_one by blast
  let ?t = "tr0 @ replicate n (TimeNow, None)"
  have pad: "extends offNetwork tr0 ?t" by (auto simp: extends_def)
  from nr0 pad have nr: "net_run host example_cfg m0 st0 ?t" by (rule net_run.other)
  have taps: "tapsAfter {} ?t = {TapName (deriveNetConfig example_cfg 0)}"
    using net_run_mirrors [OF host_host_ok nr] by (simp add: mirrors_def tableTaps_def m0 slot0)
  have fresh1: "mget (vms m0) (newVMID (e_now host ?t)) = None"
    using n by (simp add: m0 newVMID_def Itoa_inj kernel_def calm_def)
  have slot: "freeSlot host m0 = (1, True)"
    by (simp add: freeSlot_def m0 host_capacity freeSlotLoop.simps)
  have adm: "admitted host m0 ?t 2 4096"
    using spec0(7,8,11-14) host_ram [OF m0(3), of ?t]
    by (subst admitted_iff) (simp_all add: no_wrap_def empty_wf host_capacity)
  obtain v1 m1 st1 tr1 where run1: "Create host ?B ''team'' 60 2 4096 m0 st0 ?t = Some (Inr v1, m1, st1, tr1)"
    by (rule kernel_creates [where m = m0 and tr = ?t, OF _ _ adm])
      (simp_all add: slot m0 taps [simplified] Itoa_inj)
  have nr1: "net_run host example_cfg m1 st1 tr1"
    by (rule net_run.create [OF nr _ _ fresh1 _ run1]) (simp_all add: leaky_def)
  have "m1 = withVM v1 m0" "Slot v1 = 1" "ID v1 = newVMID (e_now host ?t)"
    using fc.Create_success(5,6) [OF run1] by (auto simp: slot reserved_def)
  moreover have "vms (withVM v1 m0) = [(ID v0, v0), (ID v1, v1)]" if "ID v1 = newVMID (e_now host ?t)"
    using fresh1 that by (simp add: withVM_def m0 split: if_splits)
  ultimately show ?thesis using that [OF nr1 _ slot0] by metis
qed

theorem run_network_mirrors_table_witness:
  "\<exists>m st tr. net_run host example_cfg m st tr \<and> length (vms m) = 2 \<and>
     chainAfter [] tr = slotRules example_cfg 0 @ slotRules example_cfg 1 \<and>
     tapsAfter {} tr = {''fc-tap-0'', ''fc-tap-1''}"
proof -
  obtain v0 v1 m st tr where run: "net_run host example_cfg m st tr" "vms m = [(ID v0, v0), (ID v1, v1)]"
    "Slot v0 = 0" "Slot v1 = 1" by (rule host_two_vms)
  have "Itoa 0 = ''0''" "Itoa 1 = ''1''" by (simp_all add: Itoa_def nat_digits.simps)
  with run_network_mirrors_table [OF host_host_ok run(1)] run show ?thesis
    by (intro exI [of _ m] exI [of _ st] exI [of _ tr]) simp
qed

end
