(* ===== verification/Packet_Filter.thy ===== *)
theory Packet_Filter
  imports Host_Rules
begin

text \<open>
  What the firewall rules of \<open>network.go\<close> do to packets. A packet is read against the rules of a chain
  from the first to the last, and the first rule whose options all match decides, as \<open>iptables(8)\<close>
  documents. With the order of the rules known for every run (\<open>Host_Rules\<close>), this gives who can reach a guest:
  the scheduler through the tunnel, nobody else from outside, and other guests only when they are older.
  The host's own rules are assumed not to match the packet in question; its \<open>FORWARD\<close> policy is \<open>DROP\<close>,
  as the source says, so that a packet is forwarded only if a rule accepts it.
\<close>

section \<open>Packets and rules\<close>

record packet =
  p_in :: string
  p_out :: string
  p_proto :: string
  p_src :: ipv4
  p_dport :: int
  p_state :: string

text \<open>
  One option with its value. How an address is read (\<open>-s\<close>) is the argument \<open>N\<close>; \<open>-m\<close> only loads an
  extension.
\<close>

definition optMatch :: "(string \<Rightarrow> ipv4 \<Rightarrow> bool) \<Rightarrow> packet \<Rightarrow> string \<Rightarrow> string \<Rightarrow> bool" where
  "optMatch N p opt v =
     (if opt = ''-p'' then p_proto p = v
      else if opt = ''-s'' then N v (p_src p)
      else if opt = ''--dport'' then Itoa (p_dport p) = v
      else if opt = ''-i'' then p_in p = v
      else if opt = ''-o'' then p_out p = v
      else if opt = ''--state'' then p_state p \<in> set (splitOn CHR '','' v)
      else opt = ''-m'')"

text \<open>The options of a rule, each with an optional \<open>!\<close> before it; the target and its options, if all match.\<close>

fun evalOpts :: "(string \<Rightarrow> ipv4 \<Rightarrow> bool) \<Rightarrow> packet \<Rightarrow> string list \<Rightarrow> string list option" where
  "evalOpts N p (x # y # zs) =
     (if x = ''-j'' then Some (y # zs)
      else if x = ''!'' then
        (case zs of [] \<Rightarrow> None | z # zs' \<Rightarrow> if optMatch N p y z then None else evalOpts N p zs')
      else if optMatch N p x y then evalOpts N p zs
      else None)"
| "evalOpts N p _ = None"

fun firstMatch ::
  "(string \<Rightarrow> ipv4 \<Rightarrow> bool) \<Rightarrow> string \<Rightarrow> string \<Rightarrow> packet \<Rightarrow> rule list \<Rightarrow> string list option" where
  "firstMatch N table chain p [] = None"
| "firstMatch N table chain p ((t, args) # rules) =
     (case (if t = table \<and> args \<noteq> [] \<and> hd args = chain then evalOpts N p (tl args) else None) of
        Some target \<Rightarrow> Some target
      | None \<Rightarrow> firstMatch N table chain p rules)"

abbreviation forward :: "(string \<Rightarrow> ipv4 \<Rightarrow> bool) \<Rightarrow> packet \<Rightarrow> rule list \<Rightarrow> string list option" where
  "forward N \<equiv> firstMatch N ''filter'' ''FORWARD''"

abbreviation input :: "(string \<Rightarrow> ipv4 \<Rightarrow> bool) \<Rightarrow> packet \<Rightarrow> rule list \<Rightarrow> string list option" where
  "input N \<equiv> firstMatch N ''filter'' ''INPUT''"

abbreviation prerouting :: "(string \<Rightarrow> ipv4 \<Rightarrow> bool) \<Rightarrow> packet \<Rightarrow> rule list \<Rightarrow> string list option" where
  "prerouting N \<equiv> firstMatch N ''nat'' ''PREROUTING''"

abbreviation postrouting :: "(string \<Rightarrow> ipv4 \<Rightarrow> bool) \<Rightarrow> packet \<Rightarrow> rule list \<Rightarrow> string list option" where
  "postrouting N \<equiv> firstMatch N ''nat'' ''POSTROUTING''"

definition forwarded :: "(string \<Rightarrow> ipv4 \<Rightarrow> bool) \<Rightarrow> packet \<Rightarrow> rule list \<Rightarrow> bool" where
  "forwarded N p rules \<longleftrightarrow> forward N p rules = Some [''ACCEPT'']"

lemma firstMatch_append:
  "firstMatch N t ch p (xs @ ys) =
     (case firstMatch N t ch p xs of None \<Rightarrow> firstMatch N t ch p ys | Some x \<Rightarrow> Some x)"
  by (induction xs) (auto split: option.splits)

section \<open>The rules of one VM\<close>

lemma splitOn_states [simp]:
  "splitOn CHR '','' ''NEW'' = [''NEW'']"
  "splitOn CHR '','' ''ESTABLISHED,RELATED'' = [''ESTABLISHED'', ''RELATED'']"
  by simp_all

lemma forward_VM:
  "forward N p (vmRuleList c nc) =
     (if p_out p = TapName nc \<and> N (WireguardCIDR c) (p_src p) then Some [''ACCEPT'']
      else if p_out p = TapName nc \<and> p_state p = ''NEW'' then Some [''DROP'']
      else if p_out p = TapName nc \<and> p_state p \<in> {''ESTABLISHED'', ''RELATED''} then Some [''ACCEPT'']
      else if p_in p = TapName nc then Some [''ACCEPT'']
      else None)"
  by (simp add: vmRuleList_eq optMatch_def)

lemma input_VM:
  "input N p (vmRuleList c nc) =
     (if p_proto p = ''tcp'' \<and> p_dport p = DockerPort nc \<and> \<not> N (WireguardCIDR c) (p_src p)
      then Some [''DROP''] else None)"
  by (simp add: vmRuleList_eq optMatch_def Itoa_inj)

lemma prerouting_VM:
  "prerouting N p (vmRuleList c nc) =
     (if p_proto p = ''tcp'' \<and> p_dport p = DockerPort nc \<and> N (WireguardCIDR c) (p_src p)
      then Some [''DNAT'', ''--to-destination'', IP_String (GuestIP nc) @ '':2375''] else None)"
  by (simp add: vmRuleList_eq optMatch_def Itoa_inj)

lemma postrouting_VM:
  "postrouting N p (vmRuleList c nc) =
     (if N (IP_String (GuestIP nc) @ ''/32'') (p_src p) \<and> p_out p \<noteq> TapName nc
      then Some [''MASQUERADE''] else None)"
  by (simp add: vmRuleList_eq optMatch_def)

section \<open>The rules of a list of VMs\<close>

lemma firstMatch_none:
  "\<forall>x\<in>set xs. firstMatch N t ch p (f x) = None \<Longrightarrow> firstMatch N t ch p (concat (map f xs)) = None"
  by (induction xs) (simp_all add: firstMatch_append)

lemma firstMatch_one:
  "x \<in> set xs \<Longrightarrow> firstMatch N t ch p (f x) = Some r \<Longrightarrow>
   \<forall>y\<in>set xs. firstMatch N t ch p (f y) \<in> {None, Some r} \<Longrightarrow>
   firstMatch N t ch p (concat (map f xs)) = Some r"
  by (induction xs) (auto simp: firstMatch_append split: option.splits)

text \<open>A packet to the Docker port of a VM.\<close>

lemma docker_port_table:
  assumes "slotted es" "e \<in> set es" "p_proto p = ''tcp''" "p_dport p = DockerPort (netOfVM c e)"
  shows "prerouting N p (tableRules c es) =
      (if N (WireguardCIDR c) (p_src p)
       then Some [''DNAT'', ''--to-destination'', IP_String (GuestIP (netOfVM c e)) @ '':2375''] else None)"
    "\<not> N (WireguardCIDR c) (p_src p) \<Longrightarrow> input N p (tableRules c es) = Some [''DROP'']"
proof -
  have other: "x = e" if "x \<in> set es" "p_dport p = DockerPort (netOfVM c x)" for x
  proof -
    have "0 \<le> Slot (snd e)" "Slot (snd e) < 2 ^ 30" "0 \<le> Slot (snd x)" "Slot (snd x) < 2 ^ 30"
      using assms(1,2) that(1) unfolding slotted_def by blast+
    then have "\<bar>Slot (snd x) - Slot (snd e)\<bar> < 2 ^ 64" by simp
    from i64_add_inj [OF this, of "DockerPortBase c"] that(2) assms(4)
    have "Slot (snd x) = Slot (snd e)" by simp
    then show ?thesis
      using assms(1,2) that(1) by (auto simp: slotted_def distinct_map dest: inj_onD)
  qed
  let ?t = "[''DNAT'', ''--to-destination'', IP_String (GuestIP (netOfVM c e)) @ '':2375'']"
  have "prerouting N p (tableRules c es) = Some ?t" if "N (WireguardCIDR c) (p_src p)"
    unfolding tableRules_def
    by (rule firstMatch_one [OF assms(2)])
      (use that assms(3,4) other in \<open>auto simp: prerouting_VM simp del: NetConfig_simps\<close>)
  moreover have "prerouting N p (tableRules c es) = None" if "\<not> N (WireguardCIDR c) (p_src p)"
    unfolding tableRules_def by (rule firstMatch_none) (simp add: prerouting_VM that)
  ultimately show "prerouting N p (tableRules c es) =
      (if N (WireguardCIDR c) (p_src p) then Some ?t else None)" by simp
  show "\<not> N (WireguardCIDR c) (p_src p) \<Longrightarrow> input N p (tableRules c es) = Some [''DROP'']"
    unfolding tableRules_def
    by (rule firstMatch_one [OF assms(2)]) (use assms(3,4) in \<open>auto simp: input_VM simp del: NetConfig_simps\<close>)
qed

text \<open>A packet to a VM's tap device: the rules of VMs before it in the list look only at where it comes from.\<close>

lemma forward_to_guest:
  assumes "slotted (xs @ e # ys)" "p_out p = TapName (netOfVM c e)"
    "N (WireguardCIDR c) (p_src p) \<or> p_state p = ''NEW''"
  shows "forward N p (tableRules c (xs @ e # ys)) =
    (if N (WireguardCIDR c) (p_src p) \<or> p_in p \<in> tableTaps c xs then Some [''ACCEPT''] else Some [''DROP''])"
proof -
  have "p_out p \<noteq> TapName (netOfVM c x)" if "x \<in> set xs" for x
    using slotted_neq [OF assms(1), of x] that by (simp add: assms(2) Itoa_inj)
  then have older: "forward N p (slotRules c (Slot (snd x))) =
      (if p_in p = TapName (netOfVM c x) then Some [''ACCEPT''] else None)" if "x \<in> set xs" for x
    using that by (simp add: forward_VM del: NetConfig_simps)
  have "forward N p (tableRules c xs) = (if p_in p \<in> tableTaps c xs then Some [''ACCEPT''] else None)"
  proof (cases "p_in p \<in> tableTaps c xs")
    case True
    then obtain x where x: "x \<in> set xs" "p_in p = TapName (netOfVM c x)" by (auto simp: tableTaps_def)
    have "forward N p (tableRules c xs) = Some [''ACCEPT'']"
      unfolding tableRules_def
      by (rule firstMatch_one [OF x(1)]) (use older x in \<open>auto simp del: NetConfig_simps\<close>)
    with True show ?thesis by simp
  next
    case False
    then have "forward N p (tableRules c xs) = None"
      unfolding tableRules_def tableTaps_def
      by (intro firstMatch_none) (use older in \<open>auto simp del: NetConfig_simps\<close>)
    with False show ?thesis by simp
  qed
  moreover have "forward N p (slotRules c (Slot (snd e))) =
      Some (if N (WireguardCIDR c) (p_src p) then [''ACCEPT''] else [''DROP''])"
    using assms(2,3) by (auto simp: forward_VM simp del: NetConfig_simps)
  ultimately show ?thesis
    by (simp add: tableRules_def firstMatch_append del: NetConfig_simps)
qed

text \<open>A packet from a VM's tap device to the outside.\<close>

lemma outbound_table:
  assumes "e \<in> set es" "p_in p = TapName (netOfVM c e)" "p_out p \<notin> tableTaps c es"
  shows "forward N p (tableRules c es) = Some [''ACCEPT'']"
    "N (IP_String (GuestIP (netOfVM c e)) @ ''/32'') (p_src p) \<Longrightarrow>
      postrouting N p (tableRules c es) = Some [''MASQUERADE'']"
proof -
  have out: "p_out p \<noteq> TapName (netOfVM c x)" if "x \<in> set es" for x
    using assms(3) that by (auto simp: tableTaps_def simp del: NetConfig_simps)
  show "forward N p (tableRules c es) = Some [''ACCEPT'']"
    unfolding tableRules_def
    by (rule firstMatch_one [OF assms(1)]) (use assms(2) out [OF assms(1)] out in \<open>auto simp: forward_VM simp del: NetConfig_simps\<close>)
  show "N (IP_String (GuestIP (netOfVM c e)) @ ''/32'') (p_src p) \<Longrightarrow>
      postrouting N p (tableRules c es) = Some [''MASQUERADE'']"
    unfolding tableRules_def
    by (rule firstMatch_one [OF assms(1)])
      (use out [OF assms(1)] in \<open>auto simp: postrouting_VM simp del: NetConfig_simps\<close>)
qed

section \<open>The host's rules and a list of VMs\<close>

text \<open>No rule of the host's own matches the packet.\<close>

definition silent :: "(string \<Rightarrow> ipv4 \<Rightarrow> bool) \<Rightarrow> rule list \<Rightarrow> packet \<Rightarrow> bool" where
  "silent N L p \<longleftrightarrow> (\<forall>table\<in>{''filter'', ''nat''}. \<forall>chain. firstMatch N table chain p L = None)"

lemma silent_filter:
  assumes "silent N L p"
  shows "forward N p (L @ rs) = forward N p rs" "input N p (L @ rs) = input N p rs"
    "prerouting N p (L @ rs) = prerouting N p rs" "postrouting N p (L @ rs) = postrouting N p rs"
  using assms by (simp_all add: silent_def firstMatch_append)

text \<open>
  C40. Between guests, age decides: in a run without a restart, where the table keeps the order of creation, a guest can open a connection to
  another guest (its Docker port included) exactly if its VM was created before the other's, because the rule that accepts all
  traffic from an older VM stands before the rule that protects a younger one.
\<close>

theorem guest_reaches_younger_guests:
  assumes "host_ok env c R L T" "net_run env c m st tr" "i < length (vms m)" "j < length (vms m)" "i \<noteq> j"
    and "p_in p = TapName (deriveNetConfig c (Slot (snd (vms m ! i))))"
    and "p_out p = TapName (deriveNetConfig c (Slot (snd (vms m ! j))))"
    and "p_state p = ''NEW''" "\<not> N (WireguardCIDR c) (p_src p)" "silent N L p"
  shows "forwarded N p (chainAfter L tr) \<longleftrightarrow> i < j"
proof -
  have mir: "mirrors c L T (vms m) m tr" by (rule net_run_mirrors [OF assms(1,2)])
  have slotted: "slotted (vms m)"
    by (rule slotted_table [OF host_ok_inv [OF assms(1) net_run_mgr_run [OF assms(2)]]])
      (use assms(1) mir in \<open>simp_all add: host_ok_def mirrors_def\<close>)
  have vms: "vms m = take j (vms m) @ vms m ! j # drop (Suc j) (vms m)"
    using assms(4) by (rule id_take_nth_drop)
  have "p_in p \<in> tableTaps c (take j (vms m)) \<longleftrightarrow> i < j"
  proof
    assume "p_in p \<in> tableTaps c (take j (vms m))"
    then obtain l where l: "l < j" "p_in p = TapName (netOfVM c (vms m ! l))"
      by (auto simp: tableTaps_def in_set_conv_nth simp del: NetConfig_simps)
    then have "Slot (snd (vms m ! l)) = Slot (snd (vms m ! i))" by (simp add: assms(6) Itoa_inj)
    then have "l = i"
      using slotted l(1) assms(3,4) by (simp add: slotted_def distinct_conv_nth) (metis less_trans)
    with l(1) show "i < j" by simp
  next
    assume "i < j"
    with assms(3) have "vms m ! i \<in> set (take j (vms m))" by (auto simp: in_set_conv_nth)
    with assms(6) show "p_in p \<in> tableTaps c (take j (vms m))" unfolding tableTaps_def by blast
  qed
  with forward_to_guest [of "take j (vms m)" "vms m ! j" "drop (Suc j) (vms m)", folded vms, OF slotted assms(7), of N]
    assms(8,9) mir silent_filter(1) [OF assms(10)]
  show ?thesis by (simp add: forwarded_def mirrors_def del: NetConfig_simps)
qed

section \<open>Examples\<close>

text \<open>Addresses with a prefix length, the form that \<open>setupFirewall\<close> passes to \<open>-s\<close>.\<close>

definition cidrMatch :: "string \<Rightarrow> ipv4 \<Rightarrow> bool" where
  "cidrMatch s ip =
     (case splitOn CHR ''/'' s of
        [a, n] \<Rightarrow>
          (case (parseIPv4Fields a, parseDigits n) of
             (Some [w, x, y, z], Some k) \<Rightarrow>
               netOf k ip = netOf k (IPv4 (word_of_nat w) (word_of_nat x) (word_of_nat y) (word_of_nat z))
           | _ \<Rightarrow> False)
      | _ \<Rightarrow> False)"

lemma cidrMatch_32: "\<forall>a b. cidrMatch (IP_String a @ ''/32'') b \<longleftrightarrow> a = b"
proof (intro allI)
  fix a b
  have "CHR ''/'' \<notin> set (IP_String a)"
    using IP_String_chars [of "CHR ''/''" a] by (auto simp: is_digit_def)
  then have "splitOn CHR ''/'' (IP_String a @ ''/32'') = [IP_String a, ''32'']"
    by (simp add: splitOn_append splitOn_notin)
  moreover have "parseIPv4Fields (IP_String a) = Some [unat (b1 a), unat (b2 a), unat (b3 a), unat (b4 a)]"
    unfolding IP_String_def by (rule parseIPv4Fields_dotted) (rule unat_byte)+
  moreover have "parseDigits ''32'' = Some 32" by code_simp
  moreover have "netOf 32 b = netOf 32 a \<longleftrightarrow> a = b"
    by (simp add: netOf_def word_unat_eq_iff [symmetric]) (metis bePutUint32_beUint32)
  ultimately show "cidrMatch (IP_String a @ ''/32'') b \<longleftrightarrow> a = b" by (simp add: cidrMatch_def)
qed

abbreviation scheduler_packet :: packet where
  "scheduler_packet \<equiv> \<lparr>p_in = ''wg0'', p_out = [], p_proto = ''tcp'', p_src = IPv4 10 10 0 1, p_dport = 10000,
     p_state = ''NEW''\<rparr>"

abbreviation guest0_packet :: packet where
  "guest0_packet \<equiv> \<lparr>p_in = ''fc-tap-0'', p_out = ''fc-tap-1'', p_proto = ''tcp'', p_src = IPv4 172 20 0 2, p_dport = 2375,
     p_state = ''NEW''\<rparr>"

lemma silent_Nil [simp]: "silent N [] p"
  by (simp add: silent_def)

lemma example_plan:
  "TapName (deriveNetConfig example_cfg 0) = ''fc-tap-0''" "TapName (deriveNetConfig example_cfg 1) = ''fc-tap-1''"
  "WireguardCIDR example_cfg = ''10.10.0.0/24''"
  "GuestIP (deriveNetConfig example_cfg 0) = IPv4 172 20 0 2"
  by (simp_all add: Itoa_def nat_digits.simps example_cfg_def poolAddr_def) code_simp

lemma example_sources:
  "cidrMatch ''10.10.0.0/24'' (IPv4 10 10 0 1)" "\<not> cidrMatch ''10.10.0.0/24'' (IPv4 172 20 0 2)"
proof -
  have "parseIPv4Fields ''10.10.0.0'' = Some [10, 10, 0, 0]" "parseDigits ''24'' = Some 24" by code_simp+
  then show "cidrMatch ''10.10.0.0/24'' (IPv4 10 10 0 1)" "\<not> cidrMatch ''10.10.0.0/24'' (IPv4 172 20 0 2)"
    by (simp_all add: cidrMatch_def netOf_def beUint32_def)
qed

theorem guest_reaches_younger_guests_witness:
  "\<exists>m st tr. net_run host example_cfg m st tr \<and> length (vms m) = 2 \<and>
     forwarded cidrMatch guest0_packet (chainAfter [] tr) \<and>
     \<not> forwarded cidrMatch (guest0_packet\<lparr>p_in := ''fc-tap-1'', p_out := ''fc-tap-0''\<rparr>) (chainAfter [] tr)"
proof -
  obtain v0 v1 m st tr where run: "net_run host example_cfg m st tr" "vms m = [(ID v0, v0), (ID v1, v1)]"
    "Slot v0 = 0" "Slot v1 = 1" by (rule host_two_vms)
  from guest_reaches_younger_guests [OF host_host_ok run(1), of 0 1 guest0_packet cidrMatch]
    guest_reaches_younger_guests [OF host_host_ok run(1), of 1 0 "guest0_packet\<lparr>p_in := ''fc-tap-1'', p_out := ''fc-tap-0''\<rparr>" cidrMatch] run
  show ?thesis
    by (intro exI [of _ m] exI [of _ st] exI [of _ tr]) (simp add: example_plan example_sources del: NetConfig_simps)
qed

end
