(* ===== verification/Restarts.thy ===== *)
theory Restarts
  imports Persistence Packet_Filter
begin

text \<open>
  The agent over its whole life: API calls, reaper rounds and restarts in any order. A restart throws away
  the tables in memory and the backend's live machines, and \<open>New\<close> reads the VMs from the disk; the
  rules and devices of the host stay as they are. The invariants of \<open>Lifecycle\<close> (budgets, slots),
  \<open>Persistence\<close> (the files) and \<open>Host_Rules\<close> (the network) hold together through all of it, and the
  packet filter therefore guards the guests at every moment.
\<close>

section \<open>What a restart keeps\<close>

lemma reconcileLoop_shape:
  "reconcileLoop env entries m tr = (m', tr') \<Longrightarrow> wf_map (vms m) \<Longrightarrow> wf_map (slots m) \<Longrightarrow>
   extends neutral tr tr' \<and> wf_map (vms m') \<and> wf_map (slots m')"
proof (induction entries arbitrary: m tr)
  case (Cons e entries)
  obtain name isDir where e: "e = (name, isDir)" by (cases e)
  have "\<exists>m1 tr1. reconcileLoop env entries m1 tr1 = (m', tr') \<and> wf_map (vms m1) \<and> wf_map (slots m1) \<and>
      extends neutral tr tr1"
    using Cons.prems
    by (auto simp: e readFile_def Let_def split: if_splits sum.splits option.splits)
      (fastforce intro: extends_one)+
  with Cons.IH extends_trans show ?case by blast
qed simp

lemma New_shape:
  assumes "New env c tr = (Inr m', tr')"
  shows "extends neutral tr tr'" "wf_map (vms m')" "wf_map (slots m')"
proof -
  let ?d = "VMStateDir c"
  have empty: "m_cfg (emptyManager c) = c" "wf_map (vms (emptyManager c))" "wf_map (slots (emptyManager c))"
    by (simp_all add: emptyManager_def)
  have "extends neutral tr tr' \<and> wf_map (vms m') \<and> wf_map (slots m')"
  proof (cases "e_readDir env tr ?d")
    case (Inl e)
    then show ?thesis
      using assms empty
      by (cases e) (auto simp: New_def reconcile_def readDir_def perform_def Let_def extends_def split: option.splits)
  next
    case (Inr entries)
    with assms empty(1) have "reconcileLoop env entries (emptyManager c) (tr @ [(ReadDir ?d, None)]) = (m', tr')"
      by (simp add: New_def reconcile_def readDir_def Let_def split: prod.splits)
    moreover have "extends neutral tr (tr @ [(ReadDir ?d, None)])" by (rule extends_one) simp
    ultimately show ?thesis using reconcileLoop_shape [OF _ empty(2,3)] extends_trans by blast
  qed
  then show "extends neutral tr tr'" "wf_map (vms m')" "wf_map (slots m')" by blast+
qed

text \<open>Two managers with the same entries, in whichever order, have the same bookkeeping.\<close>

lemma mgr_inv_same:
  assumes "mgr_inv env c R m" "m_cfg m' = c" "wf_map (vms m')" "wf_map (slots m')"
    "mget (vms m') = mget (vms m)" "mget (slots m') = mget (slots m)"
  shows "mgr_inv env c R m'"
proof -
  have "wf_map (vms m)" using assms(1) wf_mgrD(1) by (auto simp: mgr_inv_def)
  then have "cpuSum m' = cpuSum m" "ramSum m' = ramSum m"
    using assms(3,5) by (simp_all add: cpuSum_def ramSum_def gm.sum_entries)
  with assms show ?thesis by (simp add: mgr_inv_def wf_mgr_def quiescent_def)
qed

section \<open>The life of the agent\<close>

text \<open>
  Between the agent's operations, anything may happen on the host that leaves its metadata files, the
  iptables rules and the network devices alone.
\<close>

inductive life_run :: "env \<Rightarrow> Config \<Rightarrow> Manager \<Rightarrow> FcState \<Rightarrow> trace \<Rightarrow> bool" for env c where
  start: "extends neutral [] tr \<Longrightarrow> life_run env c (emptyManager c) NewFirecrackerBackend tr"
| other: "life_run env c m st tr \<Longrightarrow> extends neutral tr tr' \<Longrightarrow> life_run env c m st tr'"
| create: "life_run env c m st tr \<Longrightarrow> vcpu < 2 ^ 62 \<Longrightarrow> ramMb < 2 ^ 62 \<Longrightarrow>
    mget (vms m) (newVMID (e_now env tr)) = None \<Longrightarrow>
    yearOk (e_zone env) (e_now env (tr @ [(TimeNow, None)])) \<Longrightarrow> \<not> leaky r \<Longrightarrow>
    Create env (fcBackend env c) teamID ttl vcpu ramMb m st tr = Some (r, m', st', tr') \<Longrightarrow>
    life_run env c m' st' tr'"
| destroy: "life_run env c m st tr \<Longrightarrow>
    Destroy env (fcBackend env c) k m st tr = (e, m', st', tr') \<Longrightarrow> life_run env c m' st' tr'"
| reap: "life_run env c m st tr \<Longrightarrow>
    ReapExpired env (fcBackend env c) m st tr = (ids, m', st', tr') \<Longrightarrow> life_run env c m' st' tr'"
| restart: "life_run env c m st tr \<Longrightarrow> New env c tr = (Inr m', tr') \<Longrightarrow>
    life_run env c m' NewFirecrackerBackend tr'"

definition agent_ok :: "env \<Rightarrow> Config \<Rightarrow> int \<Rightarrow> rule list \<Rightarrow> string set \<Rightarrow> bool" where
  "agent_ok env c R L T \<longleftrightarrow> host_ok env c R L T \<and> disk_ok env (VMStateDir c) \<and> pids_ok env \<and> \<bar>e_zone env\<bar> < 1440"

definition life_inv :: "env \<Rightarrow> Config \<Rightarrow> int \<Rightarrow> rule list \<Rightarrow> string set \<Rightarrow> Manager \<Rightarrow> trace \<Rightarrow> bool" where
  "life_inv env c R L T m tr \<longleftrightarrow> mgr_inv env c R m \<and> vms_typed m \<and> saved env c m tr \<and> (\<exists>es. mirrors c L T es m tr)"

lemma life_inv_other:
  assumes "life_inv env c R L T m tr" "extends neutral tr tr'"
  shows "life_inv env c R L T m tr'"
  using assms saved_grows [OF _ neutral_grows] neutral_chain neutral_effects(2)
  unfolding life_inv_def mirrors_def by metis

lemma life_inv_Create:
  assumes "agent_ok env c R L T" "life_inv env c R L T m tr" "vcpu < 2 ^ 62" "ramMb < 2 ^ 62"
    and "mget (vms m) (newVMID (e_now env tr)) = None"
    and "yearOk (e_zone env) (e_now env (tr @ [(TimeNow, None)]))" "\<not> leaky r"
    and "Create env (fcBackend env c) teamID ttl vcpu ramMb m st tr = Some (r, m', st', tr')"
  shows "life_inv env c R L T m' tr'"
proof -
  have inv: "mgr_inv env c R m" "vms_typed m" "saved env c m tr" using assms(2) by (simp_all add: life_inv_def)
  obtain es where es: "mirrors c L T es m tr" using assms(2) unfolding life_inv_def by blast
  have cfg: "m_cfg m = c" using inv(1) by (simp add: mgr_inv_def)
  have ok: "net_ok env (mset L) T" "foreign c L T" "capacityCPU env \<le> 2 ^ 30" "capacityCPU env \<le> 2 ^ 62"
      "R \<le> 2 ^ 62" "capacityRAMMb env m tr \<le> R" "disk_ok env (VMStateDir c)" "pids_ok env"
    using assms(1) cfg by (simp_all add: agent_ok_def host_ok_def)
  have "mgr_inv env c R m'" by (rule mgr_inv_Create [OF inv(1) assms(3,4) ok(4-6) assms(5,8)])
  moreover have "vms_typed m'" by (rule vms_typed_Create [OF assms(8) ok(8) assms(3,4) ok(4) inv(2)])
  moreover have "saved env c m' tr'" by (rule saved_Create [OF assms(8) inv(3) cfg ok(7) assms(5,6)])
  moreover have "\<exists>es. mirrors c L T es m' tr'"
    using mirrors_Create [OF ok(1,2) inv(1) ok(3) es assms(7,5,8)] by metis
  ultimately show ?thesis by (simp add: life_inv_def)
qed

lemma life_inv_Destroy:
  assumes "agent_ok env c R L T" "life_inv env c R L T m tr"
    and "Destroy env (fcBackend env c) k m st tr = (e, m', st', tr')"
  shows "life_inv env c R L T m' tr'"
proof -
  have inv: "mgr_inv env c R m" "vms_typed m" "saved env c m tr" using assms(2) by (simp_all add: life_inv_def)
  obtain es where es: "mirrors c L T es m tr" using assms(2) unfolding life_inv_def by blast
  have cfg: "m_cfg m = c" using inv(1) by (simp add: mgr_inv_def)
  have ok: "net_ok env (mset L) T" "foreign c L T" "capacityCPU env \<le> 2 ^ 30" "disk_ok env (VMStateDir c)"
    using assms(1) by (simp_all add: agent_ok_def host_ok_def)
  have "\<exists>es. mirrors c L T es m' tr'"
    using mirrors_Destroy [OF ok(1,2) inv(1) ok(3) es assms(3)] by metis
  with mgr_inv_Destroy [OF inv(1) assms(3)] vms_typed_Destroy [OF assms(3) inv(2)]
    saved_Destroy [OF assms(3) inv(3) cfg ok(4) inv(2)]
  show ?thesis by (simp add: life_inv_def)
qed

lemma life_inv_reapLoop:
  assumes "agent_ok env c R L T"
  shows "reapLoop env (fcBackend env c) ids m st tr = (r, m', st', tr') \<Longrightarrow> life_inv env c R L T m tr \<Longrightarrow>
    life_inv env c R L T m' tr'"
proof (induction ids arbitrary: m st tr r)
  case (Cons k ids)
  obtain e m1 st1 tr1 where d: "Destroy env (fcBackend env c) k m st tr = (e, m1, st1, tr1)"
    by (metis prod_cases4)
  from Cons.IH [OF _ life_inv_Destroy [OF assms Cons.prems(2) d]] Cons.prems(1) show ?case
    by (auto simp: d split: option.splits prod.splits)
qed simp

lemma life_inv_New:
  assumes "agent_ok env c R L T" "life_inv env c R L T m tr"
  obtains m' tr' where "New env c tr = (Inr m', tr')" "mget (vms m') = mget (vms m)"
    "mget (slots m') = mget (slots m)" "life_inv env c R L T m' tr'"
proof -
  have inv: "mgr_inv env c R m" "vms_typed m" "saved env c m tr" using assms(2) by (simp_all add: life_inv_def)
  obtain es where es: "mirrors c L T es m tr" using assms(2) unfolding life_inv_def by blast
  have cfg: "m_cfg m = c" and wf: "wf_mgr m" "quiescent m" using inv(1) by (simp_all add: mgr_inv_def)
  have "disk_ok env (VMStateDir c)" "\<bar>e_zone env\<bar> < 1440" using assms(1) by (simp_all add: agent_ok_def)
  from New_from_disk [OF inv(3) this(1) cfg inv(2) wf this(2)] obtain m' tr' where new: "New env c tr = (Inr m', tr')"
    and m': "m_cfg m' = c" "mget (vms m') = mget (vms m)" "mget (slots m') = mget (slots m)" by blast
  note shape = New_shape [OF new]
  have "mgr_inv env c R m'" by (rule mgr_inv_same [OF inv(1) m'(1) shape(2,3) m'(2,3)])
  moreover have "vms_typed m'" using inv(2) m'(2) by (simp add: vms_typed_def)
  moreover have "saved env c m' tr'"
    using saved_grows [OF inv(3) neutral_grows [OF shape(1)]] m'(2) by (simp add: saved_def)
  moreover have "mirrors c L T es m' tr'"
    using es m'(2) neutral_chain [OF shape(1)] neutral_effects(2) [OF shape(1)] by (simp add: mirrors_def)
  ultimately show ?thesis using that [OF new m'(2,3)] unfolding life_inv_def by blast
qed

lemma life_run_inv:
  assumes "agent_ok env c R L T" "life_run env c m st tr"
  shows "life_inv env c R L T m tr"
  using assms(2)
proof (induction rule: life_run.induct)
  case (start tr)
  have "mgr_inv env c R (emptyManager c)"
    using host_ok_inv [OF _ mgr_run.start] assms(1) unfolding agent_ok_def by blast
  then have "life_inv env c R L T (emptyManager c) []"
    by (auto simp: life_inv_def vms_typed_def saved_def mirrors_def tableRules_def tableTaps_def emptyManager_def
      intro!: exI [of _ "[]"])
  with start life_inv_other show ?case by blast
next
  case (other m st tr tr')
  then show ?case using life_inv_other by blast
next
  case (create m st tr vcpu ramMb r teamID ttl m' st' tr')
  from life_inv_Create [OF assms(1) create.IH create.hyps(2-7)] show ?case .
next
  case (destroy m st tr k e m' st' tr')
  from life_inv_Destroy [OF assms(1) destroy.IH destroy.hyps(2)] show ?case .
next
  case (reap m st tr ids m' st' tr')
  have "extends neutral tr (tr @ [(TimeNow, None)])" by (rule extends_one) simp
  from life_inv_other [OF reap.IH this] reap.hyps(2) life_inv_reapLoop [OF assms(1)] show ?case
    by (fastforce simp: ReapExpired_def timeNow_def)
next
  case (restart m st tr m' tr')
  with life_inv_New [OF assms(1) restart.IH] show ?case by (metis Inr_inject prod.inject)
qed

section \<open>Properties\<close>

text \<open>
  C5. However often the agent is restarted between API calls and reaper rounds, the committed CPUs and memory stay
  within the host, the slots held are those of the VMs in the table, no two the same, the host has its own rules and
  devices and those of the VMs in the table and nothing else, and the next restart will find the same
  VMs and slots again. The sequences are those of \<open>life_run\<close>: calls one after the other, requests below \<open>2^62\<close>, ids that are not in the
  table yet, and no \<open>Create\<close> whose boot fails at its firewall rules or at its console, which leaves rules or a device behind; other failures of
  \<open>Create\<close> and \<open>Destroy\<close> are included. The disk does not fail.
\<close>

theorem life_keeps_everything:
  assumes "agent_ok env c R L T" "life_run env c m st tr"
  shows "cpuSum m \<le> capacityCPU env \<and> ramSum m \<le> R \<and>
    (\<forall>s k. mget (slots m) s = Some k \<longleftrightarrow> (\<exists>vm. mget (vms m) k = Some vm \<and> Slot vm = s)) \<and>
    (\<exists>es. wf_map es \<and> mget es = mget (vms m) \<and> chainAfter L tr = L @ tableRules c es \<and>
       tapsAfter T tr = T \<union> tableTaps c es) \<and>
    (\<exists>m' tr'. New env c tr = (Inr m', tr') \<and> mget (vms m') = mget (vms m) \<and> mget (slots m') = mget (slots m))"
proof -
  have inv: "life_inv env c R L T m tr" by (rule life_run_inv [OF assms])
  then have mgr: "mgr_inv env c R m" and net: "\<exists>es. mirrors c L T es m tr" by (simp_all add: life_inv_def)
  have wf: "wf_mgr m" "quiescent m" using mgr by (simp_all add: mgr_inv_def)
  have "mget (slots m) s = Some k \<longleftrightarrow> (\<exists>vm. mget (vms m) k = Some vm \<and> Slot vm = s)" for s k
    using wf(2) wf_mgrD(4) [OF wf(1)] by (auto simp: quiescent_def)
  moreover obtain m' tr' where "New env c tr = (Inr m', tr')" "mget (vms m') = mget (vms m)" "mget (slots m') = mget (slots m)"
    using life_inv_New [OF assms(1) inv] by blast
  ultimately show ?thesis using mgr net by (simp add: mgr_inv_def mirrors_def)
qed

lemma life_run_filter:
  assumes "agent_ok env c R L T" "life_run env c m st tr"
  obtains es where "slotted es" "\<forall>k vm. (k, vm) \<in> set es \<longleftrightarrow> Get k m = Some vm"
    "chainAfter L tr = L @ tableRules c es"
proof -
  have inv: "life_inv env c R L T m tr" by (rule life_run_inv [OF assms])
  then obtain es where es: "mirrors c L T es m tr" "mgr_inv env c R m" unfolding life_inv_def by blast
  then have map: "wf_map es" "mget es = mget (vms m)" by (simp_all add: mirrors_def)
  have "slotted es"
    by (rule slotted_table [OF es(2) _ map]) (use assms(1) in \<open>simp add: agent_ok_def host_ok_def\<close>)
  moreover have "(k, vm) \<in> set es \<longleftrightarrow> Get k m = Some vm" for k vm
    using gm.entries_iff [OF map(1)] map(2) by (simp add: Get_def)
  ultimately show ?thesis using that es(1) by (simp add: mirrors_def)
qed

text \<open>
  C10. The tunnel to a VM's Docker daemon. At every moment of the agent's life, a TCP packet to the host port of a VM
  in the table is sent on to port 2375 of that VM's own guest address and is forwarded to its tap
  device if it comes from the WireGuard network; from anywhere else it is not translated, and
  the host drops it.
\<close>

theorem docker_tunnel:
  assumes "agent_ok env c R L T" "life_run env c m st tr" "Get k m = Some vm"
    and "p_proto p = ''tcp''" "p_dport p = DockerPort (deriveNetConfig c (Slot vm))" "silent N L p"
    and "silent N L (p\<lparr>p_dport := 2375, p_out := TapName (deriveNetConfig c (Slot vm))\<rparr>)"
  shows "if N (WireguardCIDR c) (p_src p) then
      prerouting N p (chainAfter L tr) =
        Some [''DNAT'', ''--to-destination'', IP_String (GuestIP (deriveNetConfig c (Slot vm))) @ '':2375''] \<and>
      forwarded N (p\<lparr>p_dport := 2375, p_out := TapName (deriveNetConfig c (Slot vm))\<rparr>) (chainAfter L tr)
    else prerouting N p (chainAfter L tr) = None \<and> input N p (chainAfter L tr) = Some [''DROP'']"
proof -
  obtain es where es: "slotted es" "\<forall>k vm. (k, vm) \<in> set es \<longleftrightarrow> Get k m = Some vm"
    "chainAfter L tr = L @ tableRules c es" using life_run_filter [OF assms(1,2)] by blast
  have e: "(k, vm) \<in> set es" using es(2) assms(3) by simp
  then obtain xs ys where parts: "es = xs @ (k, vm) # ys" by (meson split_list)
  let ?q = "p\<lparr>p_dport := 2375, p_out := TapName (deriveNetConfig c (Slot vm))\<rparr>"
  note port = docker_port_table [OF es(1) e, of p c N] and fwd = forward_to_guest [OF es(1) [unfolded parts], folded parts, of ?q c N]
  show ?thesis
    using assms(4,5) port fwd silent_filter [OF assms(6)] silent_filter(1) [OF assms(7)]
    by (simp add: forwarded_def es(3) del: NetConfig_simps)
qed

text \<open>
  C11. Nothing outside opens a connection to a guest: at every moment of the agent's life, a packet that starts a
  connection, is to leave by the tap device of a VM in the table and came in on no VM's tap device is accepted if
  it comes from the WireGuard network and dropped otherwise.
\<close>

theorem outside_blocked:
  assumes "agent_ok env c R L T" "life_run env c m st tr" "Get k m = Some vm"
    and "p_out p = TapName (deriveNetConfig c (Slot vm))" "p_state p = ''NEW''"
    and "\<forall>k' vm'. Get k' m = Some vm' \<longrightarrow> p_in p \<noteq> TapName (deriveNetConfig c (Slot vm'))" "silent N L p"
  shows "forward N p (chainAfter L tr) =
    Some (if N (WireguardCIDR c) (p_src p) then [''ACCEPT''] else [''DROP''])"
proof -
  obtain es where es: "slotted es" "\<forall>k vm. (k, vm) \<in> set es \<longleftrightarrow> Get k m = Some vm"
    "chainAfter L tr = L @ tableRules c es" using life_run_filter [OF assms(1,2)] by blast
  have "(k, vm) \<in> set es" using es(2) assms(3) by simp
  then obtain xs ys where parts: "es = xs @ (k, vm) # ys" by (meson split_list)
  have "p_in p \<noteq> TapName (netOfVM c x)" if "x \<in> set xs" for x
    using assms(6) es(2) [rule_format, of "fst x" "snd x"] that by (simp add: parts del: NetConfig_simps)
  then have "p_in p \<notin> tableTaps c xs" by (auto simp: tableTaps_def simp del: NetConfig_simps)
  with forward_to_guest [OF es(1) [unfolded parts], folded parts, of p c N] assms(4,5) silent_filter(1) [OF assms(7)]
  show ?thesis by (simp add: es(3) del: NetConfig_simps)
qed

text \<open>
  Every guest has a way out: at every moment of the agent's life, what comes in on the tap device of a VM in the
  table and is to leave by a device that is no VM's is forwarded, and when it carries the guest's own
  address its source is rewritten to the host's.
\<close>

theorem guest_outbound:
  assumes "agent_ok env c R L T" "life_run env c m st tr" "Get k m = Some vm" "silent N L p"
    and "p_in p = TapName (deriveNetConfig c (Slot vm))"
    and "\<forall>k' vm'. Get k' m = Some vm' \<longrightarrow> p_out p \<noteq> TapName (deriveNetConfig c (Slot vm'))"
    and "\<forall>a b. N (IP_String a @ ''/32'') b \<longleftrightarrow> a = b"
  shows "forwarded N p (chainAfter L tr) \<and>
    (p_src p = GuestIP (deriveNetConfig c (Slot vm)) \<longrightarrow> postrouting N p (chainAfter L tr) = Some [''MASQUERADE''])"
proof -
  obtain es where es: "slotted es" "\<forall>k vm. (k, vm) \<in> set es \<longleftrightarrow> Get k m = Some vm"
    "chainAfter L tr = L @ tableRules c es" using life_run_filter [OF assms(1,2)] by blast
  have "(k, vm) \<in> set es" using es(2) assms(3) by simp
  moreover have "p_out p \<noteq> TapName (netOfVM c x)" if "x \<in> set es" for x
    using assms(6) es(2) [rule_format, of "fst x" "snd x"] that by (simp del: NetConfig_simps)
  then have "p_out p \<notin> tableTaps c es" by (auto simp: tableTaps_def simp del: NetConfig_simps)
  ultimately show ?thesis
    using outbound_table [of "(k, vm)" es p c N] assms(5,7) silent_filter [OF assms(4)]
    by (simp add: forwarded_def es(3) del: NetConfig_simps)
qed

section \<open>Examples\<close>

text \<open>A VM is created on the example host, and the agent restarted.\<close>

lemma host_agent_ok: "agent_ok host example_cfg 8192 [] {}"
  using host_host_ok host_disk host_pids by (simp add: agent_ok_def) (simp add: kernel_def calm_def)

lemma host_life:
  obtains vm m st tr where "life_run host example_cfg m st tr" "st = NewFirecrackerBackend" "Get (ID vm) m = Some vm"
    "Slot vm = 0" "Vcpu vm = 2"
proof -
  let ?m = "emptyManager example_cfg"
  obtain vm m st tr where run: "Create host (fcBackend host example_cfg) ''team'' 60 2 4096 ?m
      NewFirecrackerBackend [] = Some (Inr vm, m, st, tr)" by (rule example_create)
  have fresh: "mget (vms ?m) k = None" for k by (simp add: emptyManager_def)
  have "yearOk (e_zone host) (e_now host ([] @ [(TimeNow, None)]))"
    by (simp add: kernel_def calm_def yearOk_def localDay_def epochDay_def daysBeforeYear_def)
  with fresh have up: "life_run host example_cfg m st tr"
    by (intro life_run.create [OF life_run.start _ _ _ _ _ run]) (simp_all add: leaky_def)
  obtain m' tr' where "New host example_cfg tr = (Inr m', tr')" "mget (vms m') = mget (vms m)"
    using life_inv_New [OF host_agent_ok life_run_inv [OF host_agent_ok up]] .
  with life_run.restart [OF up] have "life_run host example_cfg m' NewFirecrackerBackend tr'" "Get (ID vm) m' = Some vm"
    using fc.Create_success(6) [OF run] by (simp_all add: Get_def withVM_def mget_mput)
  moreover have "Slot vm = 0" "Vcpu vm = 2"
    using fc.Create_success(5) [OF run] by (auto simp: empty_freeSlot host_capacity)
  ultimately show ?thesis using that by blast
qed

lemma example_port: "DockerPort (deriveNetConfig example_cfg 0) = 10000"
  "IP_String (IPv4 172 20 0 2) = ''172.20.0.2''"
  by (simp_all add: example_cfg_def i64_def) code_simp

lemma example_outside: "x \<in> {''eth0'', ''wg0''} \<Longrightarrow> x \<noteq> TapName (deriveNetConfig c s)"
  by auto

theorem life_keeps_everything_witness:
  "\<exists>m st tr. life_run host example_cfg m st tr \<and> cpuSum m \<le> 4 \<and> vms m \<noteq> [] \<and>
     (\<exists>m' tr'. New host example_cfg tr = (Inr m', tr') \<and> mget (vms m') = mget (vms m))"
proof -
  obtain vm m st tr where run: "life_run host example_cfg m st tr" "Get (ID vm) m = Some vm" by (rule host_life)
  then have "vms m \<noteq> []" by (auto simp: Get_def)
  with life_keeps_everything [OF host_agent_ok run(1)] run(1) show ?thesis
    by (intro exI [of _ m] exI [of _ st] exI [of _ tr]) (auto simp: host_capacity)
qed

theorem docker_tunnel_witness:
  "\<exists>m st tr. life_run host example_cfg m st tr \<and> vms m \<noteq> [] \<and>
     prerouting cidrMatch scheduler_packet (chainAfter [] tr) =
       Some [''DNAT'', ''--to-destination'', ''172.20.0.2:2375''] \<and>
     input cidrMatch (scheduler_packet\<lparr>p_src := IPv4 172 20 0 2\<rparr>) (chainAfter [] tr) = Some [''DROP'']"
proof -
  obtain vm m st tr where run: "life_run host example_cfg m st tr" "Get (ID vm) m = Some vm" "Slot vm = 0"
    by (rule host_life)
  then have "vms m \<noteq> []" by (auto simp: Get_def)
  with docker_tunnel [OF host_agent_ok run(1,2), of scheduler_packet cidrMatch]
    docker_tunnel [OF host_agent_ok run(1,2), of "scheduler_packet\<lparr>p_src := IPv4 172 20 0 2\<rparr>" cidrMatch] run
  show ?thesis
    by (intro exI [of _ m] exI [of _ st] exI [of _ tr])
      (simp add: example_plan example_port example_sources del: NetConfig_simps)
qed

theorem outside_blocked_witness:
  "\<exists>m st tr. life_run host example_cfg m st tr \<and> vms m \<noteq> [] \<and>
     forward cidrMatch (guest0_packet\<lparr>p_in := ''eth0'', p_out := ''fc-tap-0''\<rparr>) (chainAfter [] tr) = Some [''DROP''] \<and>
     forward cidrMatch (guest0_packet\<lparr>p_in := ''wg0'', p_out := ''fc-tap-0'', p_src := IPv4 10 10 0 1\<rparr>) (chainAfter [] tr) =
       Some [''ACCEPT'']"
proof -
  obtain vm m st tr where run: "life_run host example_cfg m st tr" "Get (ID vm) m = Some vm" "Slot vm = 0"
    by (rule host_life)
  then have "vms m \<noteq> []" by (auto simp: Get_def)
  with outside_blocked [OF host_agent_ok run(1,2), of "guest0_packet\<lparr>p_in := ''eth0'', p_out := ''fc-tap-0''\<rparr>" cidrMatch]
    outside_blocked [OF host_agent_ok run(1,2), of "guest0_packet\<lparr>p_in := ''wg0'', p_out := ''fc-tap-0'', p_src := IPv4 10 10 0 1\<rparr>" cidrMatch]
    example_outside [of "''eth0''" example_cfg] example_outside [of "''wg0''" example_cfg] run
  show ?thesis
    by (intro exI [of _ m] exI [of _ st] exI [of _ tr])
      (simp add: example_plan example_sources del: NetConfig_simps)
qed

theorem guest_outbound_witness:
  "\<exists>m st tr. life_run host example_cfg m st tr \<and> vms m \<noteq> [] \<and>
     forwarded cidrMatch (guest0_packet\<lparr>p_out := ''eth0''\<rparr>) (chainAfter [] tr) \<and>
     postrouting cidrMatch (guest0_packet\<lparr>p_out := ''eth0''\<rparr>) (chainAfter [] tr) = Some [''MASQUERADE'']"
proof -
  obtain vm m st tr where run: "life_run host example_cfg m st tr" "Get (ID vm) m = Some vm" "Slot vm = 0"
    by (rule host_life)
  then have "vms m \<noteq> []" by (auto simp: Get_def)
  with guest_outbound [OF host_agent_ok run(1,2), where p = "guest0_packet\<lparr>p_out := ''eth0''\<rparr>" and N = cidrMatch]
    cidrMatch_32 example_outside [of "''eth0''" example_cfg] run
  show ?thesis
    by (intro exI [of _ m] exI [of _ st] exI [of _ tr]) (simp add: example_plan del: NetConfig_simps)
qed

end
