(* ===== verification/Leaks.thy ===== *)
theory Leaks
  imports Restarts
begin

text \<open>
  What stays behind when an operation of the manager fails half way, and what it does to the operations after it: a
  tap device of a failed boot blocks its slot and with it the creates after it, a rootfs that could not be copied leaves its directory, and
  a guest that never got ready leaves its cgroup.
\<close>

section \<open>A tap device without a VM\<close>

abbreviation nextTap :: "env \<Rightarrow> Config \<Rightarrow> Manager \<Rightarrow> string" where
  "nextTap env c m \<equiv> TapName (deriveNetConfig c (fst (freeSlot env m)))"

lemma Create_blocked:
  assumes "net_ok env M T" "m_cfg m = c" "nextTap env c m \<in> tapsAfter T tr"
    and "Create env (fcBackend env c) teamID ttl vcpu ramMb m st tr = Some (r, m', st', tr')"
  shows "\<exists>e. r = Inl e" "m' = m" "nextTap env c m \<in> tapsAfter T tr'"
proof -
  show "\<exists>e. r = Inl e"
  proof (cases r)
    case (Inr vm)
    note run = assms(4) [unfolded Inr]
    have "Slot vm = fst (freeSlot env m)" using fc.Create_success(5) [OF run] by (auto simp: reserved_def)
    with Create_success_network(3) [OF assms(1) run] assms(2,3) show ?thesis by (simp del: NetConfig_simps)
  qed simp
  then obtain e where r: "r = Inl e" by blast
  note run = assms(4) [unfolded r]
  show "m' = m" by (rule fc.Create_error [OF run])
  from run show "nextTap env c m \<in> tapsAfter T tr'"
  proof (cases rule: Create_error_boot)
    case early
    with assms(3) neutral_effects(2) show ?thesis by metis
  next
    case (notBooted tr1 x vm' tr2 y)
    then have boot: "fcBoot env c (reserved env teamID (effTTL m ttl) vcpu ramMb (fst (freeSlot env m)) tr)
         (deriveNetConfig c (fst (freeSlot env m)))
         (Join [VMStateDir c, newVMID (e_now env tr), ''rootfs.ext4'']) st tr1 = Some (Some x, vm', st', tr2)"
      using assms(2) by (simp add: fcBackend_def)
    have "tapsAfter T tr1 \<subseteq> tapsAfter T tr2"
      using fcBoot_failure [OF assms(1) boot] by (auto simp: leftBehind_def simp del: NetConfig_simps split: if_splits)
    with assms(3) neutral_effects(2) [OF notBooted(1), of T] show ?thesis
      by (auto simp: notBooted(5) tapEffect_off simp del: NetConfig_simps)
  qed
qed

text \<open>A slot that is free, though its tap device exists.\<close>

definition haunted :: "Config \<Rightarrow> string set \<Rightarrow> int \<Rightarrow> Manager \<Rightarrow> trace \<Rightarrow> bool" where
  "haunted c T s m tr \<longleftrightarrow> wf_mgr m \<and> m_cfg m = c \<and> mget (slots m) s = None \<and> TapName (deriveNetConfig c s) \<in> tapsAfter T tr"

lemma haunted_neutral: "haunted c T s m tr \<Longrightarrow> extends neutral tr tr' \<Longrightarrow> haunted c T s m tr'"
  using neutral_effects(2) unfolding haunted_def by metis

lemma haunted_Destroy:
  assumes "net_ok env (mset L) T" "haunted c T s m tr" "Destroy env (fcBackend env c) k m st tr = (e, m', st', tr')"
  shows "haunted c T s m' tr'"
proof -
  have h: "wf_mgr m" "m_cfg m = c" "mget (slots m) s = None" "TapName (deriveNetConfig c s) \<in> tapsAfter T tr"
    using assms(2) by (simp_all add: haunted_def del: NetConfig_simps)
  from assms(1) h(2) assms(3) show ?thesis
  proof (cases rule: Destroy_chain)
    case failed
    with assms(2) show ?thesis by (simp add: haunted_def del: NetConfig_simps)
  next
    case (gone vm)
    have "Slot vm \<noteq> s" using wf_mgrD(4) [OF h(1) gone(1)] h(3) by auto
    then have "TapName (deriveNetConfig c s) \<noteq> TapName (deriveNetConfig c (Slot vm))" by (simp add: Itoa_inj)
    with h gone wf_destroyLocked [OF h(1) gone(1)] show ?thesis
      by (simp add: haunted_def destroyLocked_def mget_mdel del: NetConfig_simps)
  qed
qed

lemma haunted_reapLoop:
  assumes "net_ok env (mset L) T"
  shows "reapLoop env (fcBackend env c) ids m st tr = (r, m', st', tr') \<Longrightarrow> haunted c T s m tr \<Longrightarrow> haunted c T s m' tr'"
proof (induction ids arbitrary: m st tr r)
  case (Cons k ids)
  obtain e m1 st1 tr1 where d: "Destroy env (fcBackend env c) k m st tr = (e, m1, st1, tr1)"
    by (metis prod_cases4)
  from Cons.IH [OF _ haunted_Destroy [OF assms Cons.prems(2) d]] Cons.prems(1) show ?case
    by (auto simp: d split: option.splits prod.splits)
qed simp

text \<open>
  What the agent may do after a leak: attempts to create VMs, destroys and rounds of the reaper one after the other, as long as they
  leave every slot below \<open>s\<close> taken, with anything that leaves the network alone in between.
\<close>

abbreviation lowerTaken :: "int \<Rightarrow> Manager \<Rightarrow> bool" where
  "lowerTaken s m \<equiv> \<forall>j. 0 \<le> j \<and> j < s \<longrightarrow> mget (slots m) j \<noteq> None"

inductive attempts ::
  "env \<Rightarrow> Config \<Rightarrow> int \<Rightarrow> Manager \<Rightarrow> FcState \<Rightarrow> trace \<Rightarrow> (gerr + VM) list \<Rightarrow> Manager \<Rightarrow> FcState \<Rightarrow> trace \<Rightarrow> bool"
  for env c s m st tr where
  start: "attempts env c s m st tr [] m st tr"
| other: "attempts env c s m st tr rs m' st' tr' \<Longrightarrow> extends neutral tr' tr'' \<Longrightarrow> attempts env c s m st tr rs m' st' tr''"
| create: "attempts env c s m st tr rs m1 st1 tr1 \<Longrightarrow>
    Create env (fcBackend env c) teamID ttl vcpu ramMb m1 st1 tr1 = Some (r, m2, st2, tr2) \<Longrightarrow>
    attempts env c s m st tr (r # rs) m2 st2 tr2"
| destroy: "attempts env c s m st tr rs m1 st1 tr1 \<Longrightarrow>
    Destroy env (fcBackend env c) k m1 st1 tr1 = (e, m2, st2, tr2) \<Longrightarrow> lowerTaken s m2 \<Longrightarrow>
    attempts env c s m st tr rs m2 st2 tr2"
| reap: "attempts env c s m st tr rs m1 st1 tr1 \<Longrightarrow>
    ReapExpired env (fcBackend env c) m1 st1 tr1 = (ids, m2, st2, tr2) \<Longrightarrow> lowerTaken s m2 \<Longrightarrow>
    attempts env c s m st tr rs m2 st2 tr2"

lemma freeSlot_eq:
  assumes "mget (slots m) s = None" "lowerTaken s m" "0 \<le> s" "s < capacityCPU env"
  shows "freeSlot env m = (s, True)"
proof (cases "freeSlot env m")
  case (Pair i found)
  have found: "found"
    using freeSlotLoop_none [of "slots m" 0 "capacityCPU env" i s] assms Pair by (auto simp: freeSlot_def)
  then have "0 \<le> i" "mget (slots m) i = None" "lowerTaken i m"
    using freeSlotLoop_found [of "slots m" 0 "capacityCPU env" i] Pair by (auto simp: freeSlot_def)
  with assms(1-3) have "i = s" by (meson linorder_neqE)
  with found Pair show ?thesis by simp
qed

lemma attempts_blocked:
  assumes "net_ok env (mset L) T" "attempts env c s m st tr rs m' st' tr'" "haunted c T s m tr" "lowerTaken s m"
    and "0 \<le> s" "s < capacityCPU env"
  shows "haunted c T s m' tr' \<and> lowerTaken s m' \<and> list_all (\<lambda>r. \<exists>e. r = Inl e) rs"
  using assms(2)
proof (induction rule: attempts.induct)
  case start
  have "list_all (\<lambda>r. \<exists>e. r = Inl e) ([] :: (gerr + VM) list)" by simp
  with assms(3,4) show ?case by (intro conjI)
next
  case (other rs m' st' tr' tr'')
  then show ?case using haunted_neutral by blast
next
  case (create rs m1 st1 tr1 teamID ttl vcpu ramMb r m2 st2 tr2)
  then have h: "haunted c T s m1 tr1" "lowerTaken s m1" "list_all (\<lambda>r. \<exists>e. r = Inl e) rs" by blast+
  then have m1: "m_cfg m1 = c" "mget (slots m1) s = None" "TapName (deriveNetConfig c s) \<in> tapsAfter T tr1"
    by (simp_all add: haunted_def del: NetConfig_simps)
  have s: "freeSlot env m1 = (s, True)" by (rule freeSlot_eq [OF m1(2) h(2) assms(5,6)])
  note blocked = Create_blocked [OF assms(1) m1(1) _ create.hyps(2), unfolded s fst_conv, OF m1(3)]
  from h blocked show ?case by (simp add: haunted_def del: NetConfig_simps)
next
  case (destroy rs m1 st1 tr1 k e m2 st2 tr2)
  then show ?case using haunted_Destroy [OF assms(1)] by blast
next
  case (reap rs m1 st1 tr1 ids m2 st2 tr2)
  have "haunted c T s m1 (tr1 @ [(TimeNow, None)])" using reap.IH haunted_neutral [OF _ extends_one] by simp
  with reap haunted_reapLoop [OF assms(1)] show ?case by (fastforce simp: ReapExpired_def timeNow_def)
qed

text \<open>
  C37. One failed console can stop the host from taking VMs. After a \<open>Create\<close> whose boot could not make its state directory or open
  the pty or the console log, its tap device stays and its slot is the next to be given; every later \<open>Create\<close> of the same process fails, however many
  are tried and whatever they ask for and whichever VMs in higher slots are destroyed or reaped, until a VM in a lower slot is gone or the device
  is removed by hand.
\<close>

theorem leaked_slot_blocks_creates:
  assumes "net_ok env (mset L) T" "m_cfg m = c" "wf_mgr m"
    and "Create env (fcBackend env c) teamID ttl vcpu ramMb m st tr = Some (Inl (Wrap ''boot vm'' x), m1, st1, tr1)"
    and "stage x \<in> {''create vm state dir'', ''open pty for console'', ''open console log''}"
    and "attempts env c (fst (freeSlot env m)) m1 st1 tr1 rs m2 st2 tr2"
  shows "freeSlot env m2 = freeSlot env m \<and> nextTap env c m \<in> tapsAfter T tr2 \<and> list_all (\<lambda>r. \<exists>e. r = Inl e) rs"
proof -
  let ?s = "fst (freeSlot env m)"
  have m1: "m1 = m" by (rule fc.Create_error [OF assms(4)])
  obtain t vm vm' t2 root where boot: "fcBoot env c vm (deriveNetConfig c ?s) root st t = Some (Some x, vm', st1, t2)"
    and t2: "\<exists>p e. tr1 = t2 @ [(RemoveAll p, e)]" and found: "snd (freeSlot env m)"
    using assms(2,4)
    by (auto simp: Create_def createLocked_cases Let_def fcBackend_def bind_eq_Some_conv removeVMDir_def perform_def
      simp del: NetConfig_simps split: if_splits prod.splits option.splits)
  have "nextTap env c m \<in> tapsAfter T t2"
    using fcBoot_failure [OF assms(1) boot] assms(5) by (auto simp: leftBehind_def simp del: NetConfig_simps)
  with t2 have "nextTap env c m \<in> tapsAfter T tr1" by (auto simp: tapEffect_off simp del: NetConfig_simps)
  then have "haunted c T ?s m tr1"
    using assms(2,3) freeSlot_free [OF found] by (simp add: haunted_def del: NetConfig_simps)
  moreover have "lowerTaken ?s m" using freeSlot_lowest [OF found] by blast
  ultimately have "haunted c T ?s m2 tr2 \<and> lowerTaken ?s m2 \<and> list_all (\<lambda>r. \<exists>e. r = Inl e) rs"
    using attempts_blocked [OF assms(1,6) [unfolded m1]] freeSlot_bounds [OF found] by blast
  moreover from this have "freeSlot env m2 = (?s, True)"
    using freeSlot_eq freeSlot_bounds [OF found] unfolding haunted_def by blast
  ultimately show ?thesis using found by (simp add: haunted_def prod_eq_iff del: NetConfig_simps)
qed

section \<open>A rootfs that could not be copied\<close>

text \<open>When the copy of the golden image fails, \<open>Create\<close> has made the VM's directory and ends without a call to remove it.\<close>

theorem failed_copy_leaves_directory:
  assumes "Create env B teamID ttl vcpu ramMb m b tr = Some (Inl (Wrap ''prepare rootfs'' x), m', b', tr')"
    and "stage x \<noteq> ''create rootfs dir''"
  shows "\<exists>p q e. tr' = tr @ [(TimeNow, None), (TimeNow, None), (MkdirAll p, None), (Exec ''cp'' q, Some e)] \<and> b' = b"
  using assms
  by (auto simp: Create_def createLocked_cases prepareRootfs_def perform_def Let_def bind_eq_Some_conv
    split: if_splits prod.splits option.splits)

section \<open>A guest that never got ready\<close>

fun isRemove :: "call \<Rightarrow> bool" where
  "isRemove (Remove _) = True"
| "isRemove _ = False"

abbreviation unremoved :: "trace \<Rightarrow> trace \<Rightarrow> bool" where
  "unremoved \<equiv> extends (\<lambda>c. \<not> isRemove c)"

lemma waitLoop_unremoved:
  assumes "waitLoop env addr to dl tr = Some (r, tr')"
  shows "unremoved tr tr'"
proof -
  let ?P = "\<lambda>env (addr :: string) (to::int) (dl::int) tr z. unremoved tr (snd (z :: error \<times> trace))"
  have "?P env addr to dl tr (r, tr')"
  proof (rule waitLoop.raw_induct [where P = ?P, OF _ assms], goal_cases)
    case (1 loop env addr to dl tr z)
    have step: "unremoved tr (tr @ ev)" if "\<forall>c\<in>set ev. \<not> isRemove (fst c)" for ev using that by (auto simp: extends_def)
    note IH = 1(1)
    from 1(2) show ?case
      by (auto simp: perform_def timeNow_def performIgnore_eq Let_def step
        split: option.splits if_splits dest!: IH elim!: extends_trans [rotated])
  qed
  then show ?thesis by simp
qed

lemma teardown_unremoved: "unremoved tr (snd (teardownTapDevice env nc (snd (teardownFirewall env c nc tr))))"
proof -
  obtain r tr1 where fw: "teardownFirewall env c nc tr = (r, tr1)" by (metis surj_pair)
  have "unremoved tr tr1"
    using runAllSteps_trace [OF fw [unfolded teardownFirewall_def]] by (auto simp: extends_def dest!: set_zip_leftD)
  moreover have "unremoved tr1 (snd (teardownTapDevice env nc tr1))"
    by (auto simp: teardownTapDevice_def perform_def Let_def extends_def split: option.splits)
  ultimately show ?thesis using extends_trans by (simp add: fw)
qed

text \<open>
  When the guest does not get ready, \<open>Boot\<close> stops it and takes its network away, but no directory is removed from the moment its cgroup
  was set up to the end of the \<open>Create\<close> that fails with it, save for the VM's own: the cgroup stays.
\<close>

theorem unready_guest_keeps_cgroup:
  assumes "fcBoot env c vm nc root st tr = Some (Some (Wrap ''boot vm'' e), vm', st', tr')"
  shows "\<exists>h pid tr3 tr4. bootCgroup env vm h tr3 = (pid, tr4) \<and> unremoved tr4 (snd (removeVMDir env d tr'))"
  using assms
proof (cases rule: fcBoot_cases)
  case (network)
  then show ?thesis
    by (auto simp: bootNetwork_def split: prod.splits option.splits)
next
  case (console tr1)
  then show ?thesis by (auto simp: bootConsole_def split: prod.splits option.splits)
next
  case (machine tr1 tr2 h)
  then show ?thesis by (auto simp: bootMachine_def Let_def split: prod.splits option.splits)
next
  case (guest tr1 tr2 tr3 h pid tr4 tr5)
  have "unremoved tr4 (tr4 @ [(TimeNow, None)])" by (rule extends_one) simp
  moreover have "unremoved (tr4 @ [(TimeNow, None)]) tr5"
    using guest(5) waitLoop_unremoved by (fastforce simp: waitForDockerReady_def timeNow_def)
  moreover have "unremoved tr5 tr'"
    unfolding guest(9) abandonGuest_def Let_def
    by (intro extends_trans [OF _ teardown_unremoved] extends_trans [OF _ performIgnore_extends]) simp_all
  moreover have "unremoved tr' (snd (removeVMDir env d tr'))"
    by (simp add: removeVMDir_def perform_def Let_def extends_one)
  ultimately have "unremoved tr4 (snd (removeVMDir env d tr'))" by (blast intro: extends_trans)
  with guest(4) show ?thesis by blast
qed simp

section \<open>Examples\<close>

text \<open>A host without a pty: every boot fails there, at the console or before it.\<close>

abbreviation noPty :: env where
  "noPty \<equiv> kernel (\<lambda>c. c = PtyOpen)"

lemma noPty_boot:
  "\<exists>x vm' st' tr'. fcBoot noPty c vm nc root st tr = Some (Some x, vm', st', tr') \<and>
     (TapName nc \<notin> tapsAfter {} tr \<longrightarrow> stage x = ''open pty for console'')"
proof (cases "fst (bootNetwork noPty c nc tr)")
  case None
  then obtain t where "bootNetwork noPty c nc tr = (None, t)" by (metis prod.collapse)
  then show ?thesis by (auto simp: fcBoot_def bootConsole_def perform_def Let_def)
next
  case (Some x)
  have "TapName nc \<in> tapsAfter {} tr"
  proof (rule ccontr)
    assume "TapName nc \<notin> tapsAfter {} tr"
    then obtain t where "bootNetwork noPty c nc tr = (None, t)" by (rule kernel_bootNetwork [where refuse = "\<lambda>c. c = PtyOpen", rotated 4]) simp_all
    with Some show False by simp
  qed
  moreover obtain t where "bootNetwork noPty c nc tr = (Some x, t)" using Some by (metis prod.collapse)
  ultimately show ?thesis by (simp add: fcBoot_def)
qed

lemma noPty_create:
  obtains x m' st' tr' where "Create noPty (fcBackend noPty example_cfg) ''team'' 60 2 4096 (emptyManager example_cfg) st tr =
    Some (Inl (Wrap ''boot vm'' x), m', st', tr')"
    "TapName example_nc \<notin> tapsAfter {} tr \<longrightarrow> stage x = ''open pty for console''"
proof -
  let ?m = "emptyManager example_cfg" and ?root = "Join [VMStateDir example_cfg, newVMID (e_now noPty tr), ''rootfs.ext4'']"
  let ?vm = "reserved noPty ''team'' 60 2 4096 0 tr"
  let ?t = "tr @ [(TimeNow, None), (TimeNow, None), (MkdirAll (Dir ?root), None),
    (Exec ''cp'' [''--sparse=always'', GoldenImagePath example_cfg, ?root], None)]"
  have adm: "admitted noPty ?m tr 2 4096" by (subst admitted_iff) (simp_all add: empty_wf no_wrap_def kernel_capacity)
  have "freeSlot noPty ?m = (0, True)" by (simp add: empty_freeSlot kernel_capacity)
  moreover have "m_cfg ?m = example_cfg" by (simp add: emptyManager_def)
  moreover have "e_err noPty t (Exec ''cp'' a) = None" for t a by (simp add: kernel_def)
  moreover have "tapsAfter {} ?t = tapsAfter {} tr" by simp
  moreover obtain x vm' st' tr' where "fcBoot noPty example_cfg ?vm example_nc ?root st ?t = Some (Some x, vm', st', tr')"
    "TapName example_nc \<notin> tapsAfter {} ?t \<longrightarrow> stage x = ''open pty for console''"
    using noPty_boot by blast
  ultimately show ?thesis using adm
    by (intro that [of x]) (auto simp: Create_def createLocked_cases Let_def fcBackend_def prepareRootfs_def perform_def
      simp del: NetConfig_simps)
qed

theorem leaked_slot_blocks_creates_witness:
  "\<exists>x m1 st1 tr1 r m2 st2 tr2.
     Create noPty (fcBackend noPty example_cfg) ''team'' 60 2 4096
       (emptyManager example_cfg) NewFirecrackerBackend [] = Some (Inl (Wrap ''boot vm'' x), m1, st1, tr1) \<and>
     attempts noPty example_cfg 0 m1 st1 tr1 [r] m2 st2 tr2 \<and> (\<exists>e. r = Inl e) \<and> ''fc-tap-0'' \<in> tapsAfter {} tr2"
proof -
  let ?m = "emptyManager example_cfg"
  have cfg: "m_cfg ?m = example_cfg" "freeSlot noPty ?m = (0, True)"
    by (simp_all add: emptyManager_def empty_freeSlot [unfolded emptyManager_def] kernel_capacity)
  obtain x m1 st1 tr1 where c1: "Create noPty (fcBackend noPty example_cfg) ''team'' 60 2 4096 ?m NewFirecrackerBackend [] =
      Some (Inl (Wrap ''boot vm'' x), m1, st1, tr1)"
      and "TapName example_nc \<notin> tapsAfter {} [] \<longrightarrow> stage x = ''open pty for console''"
    by (rule noPty_create)
  then have x: "stage x = ''open pty for console''" by simp
  have m1: "m1 = ?m" by (rule fc.Create_error [OF c1])
  obtain y m2 st2 tr2 where "Create noPty (fcBackend noPty example_cfg) ''team'' 60 2 4096 m1 st1 tr1 = Some (y, m2, st2, tr2)"
    unfolding m1 by (rule noPty_create)
  from attempts.create [OF attempts.start this] have run: "attempts noPty example_cfg 0 m1 st1 tr1 [y] m2 st2 tr2" .
  have "TapName example_nc = ''fc-tap-0''" by (simp add: Itoa_def nat_digits.simps)
  moreover have "net_ok noPty (mset []) {}" using kernel_net_ok by simp
  from leaked_slot_blocks_creates [OF this cfg(1) empty_wf(1) c1, of "[y]" m2 st2 tr2] run x cfg(2)
  have "TapName example_nc \<in> tapsAfter {} tr2 \<and> list_all (\<lambda>r. \<exists>e. r = Inl e) [y]" by (simp del: NetConfig_simps)
  ultimately have "''fc-tap-0'' \<in> tapsAfter {} tr2" "\<exists>e. y = Inl e" by (simp_all del: NetConfig_simps)
  with c1 run show ?thesis by blast
qed

end
