(* ===== verification/Regmetrics.thy ===== *)
theory Regmetrics
  imports Go_Json
begin

text \<open>
  \<open>internal/regmetrics/regmetrics.go\<close>: reading the pull-through cache's counters. The counters
  are \<open>uint64\<close> words. Building the request and sending it are one outside call, whose
  error covers both; either one makes \<open>Scrape\<close> report nothing.
\<close>

record proxyStats =
  Requests :: "64 word"
  Hits :: "64 word"
  Misses :: "64 word"

record registrySection =
  Proxy :: "proxyStats option"

record expvarPayload =
  Registry :: "registrySection option"

definition zeroStats :: proxyStats where
  "zeroStats = \<lparr>Requests = 0, Hits = 0, Misses = 0\<rparr>"

definition setStats :: "string \<Rightarrow> json \<Rightarrow> proxyStats \<Rightarrow> proxyStats option" where
  "setStats k j ps =
     (if j = JNull then Some ps
      else if k = ''requests'' then map_option (\<lambda>n. ps\<lparr>Requests := n\<rparr>) (uintValue j)
      else if k = ''hits'' then map_option (\<lambda>n. ps\<lparr>Hits := n\<rparr>) (uintValue j)
      else if k = ''misses'' then map_option (\<lambda>n. ps\<lparr>Misses := n\<rparr>) (uintValue j)
      else Some ps)"

definition setSection :: "string \<Rightarrow> json \<Rightarrow> registrySection \<Rightarrow> registrySection option" where
  "setSection k j r =
     (if k = ''proxy'' then map_option (\<lambda>p. r\<lparr>Proxy := p\<rparr>) (decodePtr setStats zeroStats j (Proxy r))
      else Some r)"

definition setPayload :: "string \<Rightarrow> json \<Rightarrow> expvarPayload \<Rightarrow> expvarPayload option" where
  "setPayload k j p =
     (if k = ''registry'' then
        map_option (\<lambda>r. p\<lparr>Registry := r\<rparr>) (decodePtr setSection \<lparr>Proxy = None\<rparr> j (Registry p))
      else Some p)"

fun decodePayload :: "content \<Rightarrow> expvarPayload option" where
  "decodePayload (Doc j) = decodeObj setPayload j \<lparr>Registry = None\<rparr>"
| "decodePayload (Text _) = None"

definition parse :: "content \<Rightarrow> gerr + (64 word \<times> 64 word \<times> bool)" where
  "parse r =
     (case decodePayload r of
        None \<Rightarrow> Inl (Wrap ''decode expvar'' (Msg ''json''))
      | Some p \<Rightarrow>
          (case Registry p of
             None \<Rightarrow> Inr (0, 0, False)
           | Some reg \<Rightarrow>
               (case Proxy reg of
                  None \<Rightarrow> Inr (0, 0, False)
                | Some ps \<Rightarrow> Inr (Hits ps + Misses ps, Hits ps, True))))"

definition Scrape :: "env \<Rightarrow> string \<Rightarrow> trace \<Rightarrow> (64 word \<times> 64 word \<times> bool) \<times> trace" where
  "Scrape env url tr =
     (if url = [] then ((0, 0, False), tr)
      else case httpDo env (HttpDo ''GET'' url [] (Text [])) tr of
        (Inl _, tr) \<Rightarrow> ((0, 0, False), tr)
      | (Inr (status, body), tr) \<Rightarrow>
          if status \<noteq> 200 then ((0, 0, False), tr)
          else (case parse body of
                  Inl _ \<Rightarrow> ((0, 0, False), tr)
                | Inr r \<Rightarrow> (r, tr)))"

lemmas regmetrics_defs [ops] = setStats_def setSection_def setPayload_def parse_def Scrape_def

section \<open>Reading the registry's document\<close>

lemma foldKey_regnames [simp]:
  "foldKey ''registry'' = ''registry''" "foldKey ''proxy'' = ''proxy''" "foldKey ''Requests'' = ''requests''"
  "foldKey ''Hits'' = ''hits''" "foldKey ''Misses'' = ''misses''"
  by code_simp+

text \<open>
  The documents of the registry's proxy section: no name twice, the hits and the misses among the members with counters that fit, the
  number of requests, when it is there, a counter too, and any other members besides.
\<close>

definition proxySection :: "(string \<times> json) list \<Rightarrow> nat \<Rightarrow> nat \<Rightarrow> bool" where
  "proxySection ms h mi \<longleftrightarrow> distinct (map (foldKey \<circ> fst) ms) \<and>
     (''Hits'', JInt (int h)) \<in> set ms \<and> (''Misses'', JInt (int mi)) \<in> set ms \<and> h < 2 ^ 64 \<and> mi < 2 ^ 64 \<and>
     list_all (\<lambda>(k, j). foldKey k = ''requests'' \<longrightarrow> uintValue j \<noteq> None) ms"

lemma uintValue_nat [simp]: "n < 2 ^ 64 \<Longrightarrow> uintValue (JInt (int n)) = Some (of_nat n)"
  using of_nat_less_iff [where ?'a = int, of n "2 ^ 64"] by simp

lemma decode_stats_members:
  assumes "list_all (\<lambda>(k, j). foldKey k \<in> {''requests'', ''hits'', ''misses''} \<longrightarrow> uintValue j \<noteq> None) ms"
    and "distinct (map (foldKey \<circ> fst) ms)"
  shows "\<exists>ps'. decodeMembers setStats ms ps = Some ps' \<and>
    Hits ps' = (case map_of (map (\<lambda>(k, j). (foldKey k, j)) ms) ''hits'' of None \<Rightarrow> Hits ps | Some j \<Rightarrow> the (uintValue j)) \<and>
    Misses ps' = (case map_of (map (\<lambda>(k, j). (foldKey k, j)) ms) ''misses'' of None \<Rightarrow> Misses ps | Some j \<Rightarrow> the (uintValue j))"
  using assms
proof (induction ms arbitrary: ps)
  case (Cons m ms)
  obtain k j where m: "m = (k, j)" by (cases m)
  let ?f = "map_of (map (\<lambda>(k, j). (foldKey k, j)) ms)"
  have absent: "?f (foldKey k) = None" using Cons.prems(2) by (force simp: m map_of_eq_None_iff)
  have "\<exists>ps1. setStats (foldKey k) j ps = Some ps1 \<and>
      Hits ps1 = (if foldKey k = ''hits'' then the (uintValue j) else Hits ps) \<and>
      Misses ps1 = (if foldKey k = ''misses'' then the (uintValue j) else Misses ps)"
    using Cons.prems(1) by (auto simp: m setStats_def)
  then obtain ps1 where ps1: "setStats (foldKey k) j ps = Some ps1"
      "Hits ps1 = (if foldKey k = ''hits'' then the (uintValue j) else Hits ps)"
      "Misses ps1 = (if foldKey k = ''misses'' then the (uintValue j) else Misses ps)" by blast
  from Cons.IH [of ps1] Cons.prems obtain ps' where "decodeMembers setStats ms ps1 = Some ps'"
      "Hits ps' = (case ?f ''hits'' of None \<Rightarrow> Hits ps1 | Some j \<Rightarrow> the (uintValue j))"
      "Misses ps' = (case ?f ''misses'' of None \<Rightarrow> Misses ps1 | Some j \<Rightarrow> the (uintValue j))" by auto
  with ps1 absent show ?case by (auto simp: m split: option.splits)
qed simp

lemma decode_stats:
  assumes "proxySection ms h mi"
  shows "\<exists>ps'. decodeObj setStats (JObj ms) ps = Some ps' \<and> Hits ps' = of_nat h \<and> Misses ps' = of_nat mi"
proof -
  let ?l = "map (\<lambda>(k, j). (foldKey k, j)) ms"
  have d: "distinct (map fst ?l)" "distinct (map (foldKey \<circ> fst) ms)"
    using assms by (simp_all add: proxySection_def comp_def case_prod_unfold)
  have "(''hits'', JInt (int h)) \<in> set ?l" "(''misses'', JInt (int mi)) \<in> set ?l"
    using assms by (force simp: proxySection_def)+
  with d(1) have at: "map_of ?l ''hits'' = Some (JInt (int h))" "map_of ?l ''misses'' = Some (JInt (int mi))"
    by (simp_all add: map_of_eq_Some_iff)
  have fits: "h < 2 ^ 64" "mi < 2 ^ 64" using assms by (simp_all add: proxySection_def)
  have "uintValue j \<noteq> None" if "(k, j) \<in> set ms" "foldKey k \<in> {''requests'', ''hits'', ''misses''}" for k j
  proof -
    have "map_of ?l (foldKey k) = Some j" using that(1) d(1) by (force simp: map_of_eq_Some_iff)
    then show ?thesis using that at fits assms by (auto simp: proxySection_def list_all_iff)
  qed
  then have "list_all (\<lambda>(k, j). foldKey k \<in> {''requests'', ''hits'', ''misses''} \<longrightarrow> uintValue j \<noteq> None) ms"
    by (auto simp: list_all_iff)
  from decode_stats_members [OF this d(2), of ps] at fits show ?thesis by auto
qed

lemma decode_section:
  assumes "proxySection ms h mi" "\<forall>(k, j)\<in>set (xs @ ys). foldKey k \<noteq> ''proxy''"
  shows "\<exists>ps'. decodeObj setSection (JObj (xs @ (''proxy'', JObj ms) # ys)) r = Some (r\<lparr>Proxy := Some ps'\<rparr>) \<and>
    Hits ps' = of_nat h \<and> Misses ps' = of_nat mi"
proof -
  obtain ps' where "decodeObj setStats (JObj ms) (case Proxy r of None \<Rightarrow> zeroStats | Some x \<Rightarrow> x) = Some ps'"
    "Hits ps' = of_nat h" "Misses ps' = of_nat mi" using decode_stats [OF assms(1)] by blast
  moreover have "decodeMembers setSection zs r' = Some r'" if "set zs \<subseteq> set (xs @ ys)" for zs r'
    using assms(2) that by (intro decodeMembers_skip) (auto simp: setSection_def)
  ultimately show ?thesis by (intro exI [of _ ps']) (simp add: decodeMembers_append setSection_def decodePtr_def)
qed

lemma parse_document:
  assumes "proxySection ms h mi" "\<forall>(k, j)\<in>set (xs @ ys). foldKey k \<noteq> ''proxy''"
    "\<forall>(k, j)\<in>set (us @ ws). foldKey k \<noteq> ''registry''"
  shows "parse (Doc (JObj (us @ (''registry'', JObj (xs @ (''proxy'', JObj ms) # ys)) # ws))) =
    Inr (of_nat (h + mi), of_nat h, True)"
proof -
  obtain ps' where "decodeObj setSection (JObj (xs @ (''proxy'', JObj ms) # ys)) \<lparr>Proxy = None\<rparr> =
      Some (\<lparr>Proxy = None\<rparr>\<lparr>Proxy := Some ps'\<rparr>)" "Hits ps' = of_nat h" "Misses ps' = of_nat mi"
    using decode_section [OF assms(1,2)] by blast
  moreover have "decodeMembers setPayload zs p = Some p" if "set zs \<subseteq> set (us @ ws)" for zs p
    using assms(3) that by (intro decodeMembers_skip) (auto simp: setPayload_def)
  ultimately show ?thesis
    by (simp add: parse_def decodeMembers_append setPayload_def decodePtr_def)
qed

text \<open>
  C33. When the cache's endpoint answers 200 with a document that has a \<open>registry.proxy\<close> section, among whatever other members at each
  level and with the members of the section in any order, \<open>Scrape\<close> gives its hits, and hits plus misses as the total; the total is
  exact unless the sum passes \<open>2^64\<close>.
\<close>

theorem Scrape_reads_counters:
  assumes "url \<noteq> []" "e_http env tr (HttpDo ''GET'' url [] (Text [])) =
      Inr (200, Doc (JObj (us @ (''registry'', JObj (xs @ (''proxy'', JObj ms) # ys)) # ws)))"
    and "proxySection ms h mi" "\<forall>(k, j)\<in>set (xs @ ys). foldKey k \<noteq> ''proxy''"
    "\<forall>(k, j)\<in>set (us @ ws). foldKey k \<noteq> ''registry''"
  shows "fst (Scrape env url tr) = (of_nat (h + mi), of_nat h, True) \<and>
    (h + mi < 2 ^ 64 \<longrightarrow> unat (fst (fst (Scrape env url tr))) = h + mi)"
proof -
  have "fst (Scrape env url tr) = (of_nat (h + mi), of_nat h, True)"
    using assms(1,2) parse_document [OF assms(3-5)] by (simp add: Scrape_def httpDo_def Let_def)
  moreover have "h + mi < 2 ^ 64 \<Longrightarrow> unat (of_nat (h + mi) :: 64 word) = h + mi"
    by (simp add: unat_of_nat del: of_nat_add)
  ultimately show ?thesis by (simp del: of_nat_add)
qed

text \<open>The document of \<open>regmetrics_test.go\<close>.\<close>

definition sampleProxy :: "(string \<times> json) list" where
  "sampleProxy = [(''Requests'', JInt 40), (''Hits'', JInt 30), (''Misses'', JInt 10), (''BytesPulled'', JInt 123456789),
     (''BytesPushed'', JInt 987654321)]"

definition sampleExpvar :: json where
  "sampleExpvar = JObj
     [(''cmdline'', JArr [JStr ''/bin/registry'', JStr ''serve'', JStr ''/etc/docker/registry/config.yml'']),
      (''memstats'', JObj [(''Alloc'', JInt 1234567), (''TotalAlloc'', JInt 7654321)]),
      (''registry'', JObj [(''proxy'', JObj sampleProxy)])]"

theorem Scrape_reads_counters_witness:
  "fst (Scrape (calm\<lparr>e_http := \<lambda>_ _. Inr (200, Doc sampleExpvar)\<rparr>) ''http://127.0.0.1:5001/debug/vars'' []) = (40, 30, True)"
proof -
  let ?env = "calm\<lparr>e_http := \<lambda>_ _. Inr (200, Doc sampleExpvar)\<rparr>"
  have keys: "foldKey ''cmdline'' \<noteq> ''registry''" "foldKey ''memstats'' \<noteq> ''registry''"
    by (simp_all add: foldKey.simps lowerByte_def)
  have "foldKey ''BytesPulled'' = ''bytespulled''" "foldKey ''BytesPushed'' = ''bytespushed''" by code_simp+
  then have "proxySection sampleProxy 30 10" by (simp add: proxySection_def sampleProxy_def)
  from Scrape_reads_counters [OF _ _ this, of "''http://127.0.0.1:5001/debug/vars''" ?env "[]"
      "[(''cmdline'', JArr [JStr ''/bin/registry'', JStr ''serve'', JStr ''/etc/docker/registry/config.yml'']),
        (''memstats'', JObj [(''Alloc'', JInt 1234567), (''TotalAlloc'', JInt 7654321)])]" "[]" "[]" "[]"] keys
  show ?thesis by (simp add: sampleExpvar_def)
qed

text \<open>
  \<open>Scrape\<close> never reports a misleading zero: with no URL it makes no call at all, and when the
  request fails, the status is not 200, or the body does not decode or has no
  \<open>registry.proxy\<close>, its third result is false.
\<close>

theorem Scrape_reports_only_data:
  "snd (snd (fst (Scrape env url tr))) \<longleftrightarrow>
     url \<noteq> [] \<and> (\<exists>body p reg. e_http env tr (HttpDo ''GET'' url [] (Text [])) = Inr (200, body) \<and>
       decodePayload body = Some p \<and> Registry p = Some reg \<and> Proxy reg \<noteq> None)"
  by (auto simp: Scrape_def parse_def httpDo_def Let_def split: sum.splits option.splits)

end
