(* ===== verification/Background.thy ===== *)
theory Background
  imports Lifecycle Regmetrics
begin

text \<open>
  The two background loops: \<open>internal/reaper/reaper.go\<close> and \<open>internal/heartbeat/heartbeat.go\<close>. A
  loop is driven by what its \<open>select\<close> receives, one after the other: a tick, or the end of
  the context. \<open>time.NewTicker\<close> panics on an interval that is not positive.
\<close>

datatype sel = CtxDoneC | TickerC

datatype 'a outcome = Panic string | Returned 'a | Waiting 'a

definition NewTicker :: "int \<Rightarrow> string option" where
  "NewTicker d = (if d \<le> 0 then Some ''non-positive interval for NewTicker'' else None)"

section \<open>Reaper\<close>

fun reaperLoop ::
  "env \<Rightarrow> 'b Backend \<Rightarrow> sel list \<Rightarrow> Manager \<Rightarrow> 'b \<Rightarrow> trace \<Rightarrow> (Manager \<times> 'b \<times> trace) outcome" where
  "reaperLoop env B [] m b tr = Waiting (m, b, tr)"
| "reaperLoop env B (CtxDoneC # sels) m b tr = Returned (m, b, tr)"
| "reaperLoop env B (TickerC # sels) m b tr =
     (case ReapExpired env B m b tr of (_, m, b, tr) \<Rightarrow> reaperLoop env B sels m b tr)"

definition reaper_Start ::
  "env \<Rightarrow> 'b Backend \<Rightarrow> int \<Rightarrow> sel list \<Rightarrow> Manager \<Rightarrow> 'b \<Rightarrow> trace \<Rightarrow> (Manager \<times> 'b \<times> trace) outcome" where
  "reaper_Start env B interval sels m b tr =
     (case NewTicker interval of
        Some msg \<Rightarrow> Panic msg
      | None \<Rightarrow> reaperLoop env B sels m b tr)"

section \<open>Heartbeat\<close>

record payload =
  P_CPUUsed :: int
  P_RAMUsedMb :: int
  P_ActiveVMCount :: int
  P_Draining :: bool
  P_CacheLookups :: "64 word option"
  P_CacheHits :: "64 word option"

definition encodePayload :: "payload \<Rightarrow> json" where
  "encodePayload p = JObj
     ([(''cpuUsed'', JInt (P_CPUUsed p)), (''ramUsedMb'', JInt (P_RAMUsedMb p)),
       (''activeVmCount'', JInt (P_ActiveVMCount p)), (''draining'', JBool (P_Draining p))] @
      (case P_CacheLookups p of None \<Rightarrow> [] | Some n \<Rightarrow> [(''cacheLookups'', JInt (uint n))]) @
      (case P_CacheHits p of None \<Rightarrow> [] | Some n \<Rightarrow> [(''cacheHits'', JInt (uint n))]))"

text \<open>What one call of \<open>send\<close> reports, and the request it makes of it.\<close>

definition makePayload :: "env \<Rightarrow> string \<Rightarrow> Manager \<Rightarrow> bool \<Rightarrow> trace \<Rightarrow> payload \<times> trace" where
  "makePayload env registryMetricsURL m draining tr =
     (let h = Health env m tr;
          p = \<lparr>P_CPUUsed = CPUUsed h, P_RAMUsedMb = RAMUsedMb h, P_ActiveVMCount = ActiveVMCount h,
               P_Draining = draining, P_CacheLookups = None, P_CacheHits = None\<rparr>
      in case Scrape env registryMetricsURL tr of
           ((lookups, hits, ok), tr) \<Rightarrow>
             (if ok then p\<lparr>P_CacheLookups := Some lookups, P_CacheHits := Some hits\<rparr> else p, tr))"

definition heartbeatCall :: "string \<Rightarrow> string \<Rightarrow> payload \<Rightarrow> call" where
  "heartbeatCall schedulerURL token p =
     HttpDo ''POST'' (schedulerURL @ ''/internal/hosts/heartbeat'')
       [(''Authorization'', ''Bearer '' @ token), (''Content-Type'', ''application/json'')]
       (Doc (encodePayload p))"

definition send :: "env \<Rightarrow> string \<Rightarrow> string \<Rightarrow> string \<Rightarrow> Manager \<Rightarrow> bool \<Rightarrow> trace \<Rightarrow> trace" where
  "send env schedulerURL token registryMetricsURL m draining tr =
     (case makePayload env registryMetricsURL m draining tr of
        (p, tr) \<Rightarrow> snd (httpDo env (heartbeatCall schedulerURL token p) tr))"

text \<open>
  The manager and the draining flag are shared: what the loop sees of them at each of its
  rounds comes with what its \<open>select\<close> receives.
\<close>

fun heartbeatLoop ::
  "env \<Rightarrow> string \<Rightarrow> string \<Rightarrow> string \<Rightarrow> (sel \<times> Manager \<times> bool) list \<Rightarrow> trace \<Rightarrow> trace outcome" where
  "heartbeatLoop env url token murl [] tr = Waiting tr"
| "heartbeatLoop env url token murl ((CtxDoneC, _) # sels) tr = Returned tr"
| "heartbeatLoop env url token murl ((TickerC, m, draining) # sels) tr =
     heartbeatLoop env url token murl sels (send env url token murl m draining tr)"

definition heartbeat_Start ::
  "env \<Rightarrow> string \<Rightarrow> string \<Rightarrow> string \<Rightarrow> int \<Rightarrow> Manager \<Rightarrow> bool \<Rightarrow> (sel \<times> Manager \<times> bool) list \<Rightarrow> trace \<Rightarrow>
   trace outcome" where
  "heartbeat_Start env url token murl interval m draining sels tr =
     (case NewTicker interval of
        Some msg \<Rightarrow> Panic msg
      | None \<Rightarrow> heartbeatLoop env url token murl sels (send env url token murl m draining tr))"

lemmas background_defs [ops] =
  NewTicker_def reaper_Start_def encodePayload_def makePayload_def heartbeatCall_def send_def
  heartbeat_Start_def

section \<open>The reaper leaves no overdue VM\<close>

definition noOverdue :: "int \<Rightarrow> Manager \<Rightarrow> bool" where
  "noOverdue now m \<longleftrightarrow> (\<forall>k vm. mget (vms m) k = Some vm \<longrightarrow> now \<le> ExpiresAt vm)"

lemma ReapExpired_noOverdue:
  assumes "wf_mgr m" "\<forall>vm st tr. fst (fcStop env vm st tr) = None"
    "ReapExpired env (fcBackend env c) m st tr = (ids, m', st', tr')"
  shows "noOverdue (e_now env tr) m'" "wf_mgr m'"
  using ReapExpired_spec [OF assms(1,3)] assms(2) by (auto simp: noOverdue_def not_less split: if_splits)

lemma reaperLoop_append:
  "reaperLoop env B (replicate n TickerC @ sels) m b tr =
     (case reaperLoop env B (replicate n TickerC) m b tr of
        Waiting (m', b', tr') \<Rightarrow> reaperLoop env B sels m' b' tr' | r \<Rightarrow> r)"
  by (induction n arbitrary: m b tr) (auto split: prod.splits)

lemma reaperLoop_ticks_wf:
  assumes "wf_mgr m"
  shows "\<exists>m' st' tr'. reaperLoop env (fcBackend env c) (replicate n TickerC) m st tr = Waiting (m', st', tr') \<and> wf_mgr m'"
  using assms
proof (induction n arbitrary: m st tr)
  case (Suc n)
  obtain ids m1 st1 tr1 where r: "ReapExpired env (fcBackend env c) m st tr = (ids, m1, st1, tr1)"
    by (metis prod_cases4)
  with ReapExpired_spec [OF Suc.prems r] Suc.IH [of m1] show ?case by simp
qed simp

text \<open>
  C31. As long as stopping a VM succeeds, the reaper leaves no VM overdue: after each of its ticks,
  no VM of the table is past its time at that tick, and the loop ends only with the context.
\<close>

theorem reaper_leaves_no_overdue:
  assumes "0 < interval" "wf_mgr m" "\<forall>vm st tr. fst (fcStop env vm st tr) = None"
  shows "\<exists>m1 st1 tr1 m2 st2 tr2.
    reaper_Start env (fcBackend env c) interval (replicate n TickerC) m st tr = Waiting (m1, st1, tr1) \<and>
    reaper_Start env (fcBackend env c) interval (replicate (Suc n) TickerC) m st tr = Waiting (m2, st2, tr2) \<and>
    reaper_Start env (fcBackend env c) interval (replicate (Suc n) TickerC @ [CtxDoneC]) m st tr =
      Returned (m2, st2, tr2) \<and>
    noOverdue (e_now env tr1) m2"
proof -
  let ?B = "fcBackend env c"
  obtain m1 st1 tr1 where 1: "reaperLoop env ?B (replicate n TickerC) m st tr = Waiting (m1, st1, tr1)" "wf_mgr m1"
    using reaperLoop_ticks_wf [OF assms(2)] by blast
  obtain ids m2 st2 tr2 where 2: "ReapExpired env ?B m1 st1 tr1 = (ids, m2, st2, tr2)" by (metis prod_cases4)
  have split: "replicate (Suc n) TickerC = replicate n TickerC @ [TickerC]"
    by (simp add: replicate_append_same)
  have "reaperLoop env ?B (replicate (Suc n) TickerC) m st tr = Waiting (m2, st2, tr2)"
    unfolding split reaperLoop_append by (simp add: 1 2)
  moreover have "reaperLoop env ?B (replicate (Suc n) TickerC @ [CtxDoneC]) m st tr = Returned (m2, st2, tr2)"
    unfolding split append_assoc reaperLoop_append by (simp add: 1 2)
  ultimately show ?thesis
    using ReapExpired_noOverdue(1) [OF 1(2) assms(3) 2] 1(1) assms(1)
    by (auto simp: reaper_Start_def NewTicker_def)
qed

theorem reaper_leaves_no_overdue_witness:
  "\<exists>m2 st2 tr2. reaper_Start calm (fcBackend calm example_cfg) 30000000000 [TickerC, CtxDoneC]
     (withVM example_vm (emptyManager example_cfg)) NewFirecrackerBackend [] = Returned (m2, st2, tr2) \<and>
     noOverdue 0 m2"
proof -
  let ?m = "withVM example_vm (emptyManager example_cfg)"
  have wf: "wf_mgr ?m"
    by (rule wf_withVM [OF empty_wf(1)]) (simp_all add: example_vm_def emptyManager_def)
  have stops: "\<forall>vm st tr. fst (fcStop calm vm st tr) = None"
    by (auto simp: fcStop_def perform_def calm_def Let_def split: option.splits)
  from reaper_leaves_no_overdue [OF _ wf stops, of 30000000000 example_cfg 0 NewFirecrackerBackend "[]"]
  show ?thesis by (auto simp: reaper_Start_def NewTicker_def calm_def)
qed

section \<open>What the heartbeat sends\<close>

lemma Scrape_calls:
  "\<exists>ev. snd (Scrape env url tr) = tr @ ev \<and> ev \<in> {[]} \<union> range (\<lambda>e. [(HttpDo ''GET'' url [] (Text []), e)])"
  by (auto simp: Scrape_def httpDo_def Let_def split: sum.splits)

lemma makePayload_trace: "snd (makePayload env murl m dr tr) = snd (Scrape env murl tr)"
  by (simp add: makePayload_def Let_def split: prod.splits)

definition isPost :: "call \<times> oserr option \<Rightarrow> bool" where
  "isPost c \<longleftrightarrow> (case fst c of HttpDo meth _ _ _ \<Rightarrow> meth = ''POST'' | _ \<Rightarrow> False)"

lemma send_posts:
  "\<exists>ev. send env url token murl m dr tr = tr @ ev \<and>
    map fst (filter isPost ev) = [heartbeatCall url token (fst (makePayload env murl m dr tr))]"
proof -
  obtain ev where ev: "snd (makePayload env murl m dr tr) = tr @ ev" "filter isPost ev = []"
    using Scrape_calls [of env murl tr] by (auto simp: makePayload_trace isPost_def)
  then show ?thesis
    by (auto simp: send_def httpDo_def Let_def isPost_def heartbeatCall_def split: prod.splits)
qed

fun traceOf :: "trace outcome \<Rightarrow> trace" where
  "traceOf (Waiting tr) = tr" | "traceOf (Returned tr) = tr" | "traceOf (Panic _) = []"

text \<open>
  What a heartbeat has to be: a POST to the scheduler's route with the agent's token, whose document has the host's load at that moment and
  the draining flag and, when the cache's counters could be read then, both of them, and no other member.
\<close>

definition reports :: "env \<Rightarrow> string \<Rightarrow> string \<Rightarrow> string \<Rightarrow> trace \<Rightarrow> Manager \<times> bool \<Rightarrow> call \<Rightarrow> bool" where
  "reports env url token murl tr s c \<longleftrightarrow>
     (let h = Health env (fst s) tr; (lookups, hits, ok) = fst (Scrape env murl tr) in
      \<exists>fs. c = HttpDo ''POST'' (url @ ''/internal/hosts/heartbeat'')
          [(''Authorization'', ''Bearer '' @ token), (''Content-Type'', ''application/json'')] (Doc (JObj fs)) \<and>
        map_of fs = [''cpuUsed'' \<mapsto> JInt (CPUUsed h), ''ramUsedMb'' \<mapsto> JInt (RAMUsedMb h),
          ''activeVmCount'' \<mapsto> JInt (ActiveVMCount h), ''draining'' \<mapsto> JBool (snd s)] ++
          (if ok then [''cacheLookups'' \<mapsto> JInt (uint lookups), ''cacheHits'' \<mapsto> JInt (uint hits)] else Map.empty))"

lemma heartbeatCall_reports: "reports env url token murl tr (m, dr) (heartbeatCall url token (fst (makePayload env murl m dr tr)))"
  by (auto simp: reports_def heartbeatCall_def makePayload_def encodePayload_def Let_def fun_eq_iff split: prod.splits)

lemma send_reports:
  obtains ev c where "send env url token murl m dr tr = tr @ ev" "map fst (filter isPost ev) = [c]"
    "reports env url token murl tr (m, dr) c"
  using send_posts heartbeatCall_reports by metis

text \<open>The rounds of a trace, one for each state the loop sees: each has one POST, which reports the state and the counters the round began with.\<close>

primrec heartbeats :: "env \<Rightarrow> string \<Rightarrow> string \<Rightarrow> string \<Rightarrow> trace \<Rightarrow> (Manager \<times> bool) list \<Rightarrow> trace \<Rightarrow> bool" where
  "heartbeats env url token murl tr [] ev \<longleftrightarrow> ev = []"
| "heartbeats env url token murl tr (s # ss) ev \<longleftrightarrow>
     (\<exists>c e1 e2. ev = e1 @ e2 \<and> map fst (filter isPost e1) = [c] \<and> reports env url token murl tr s c \<and>
        heartbeats env url token murl (tr @ e1) ss e2)"

lemma heartbeats_Cons:
  assumes "map fst (filter isPost e1) = [c]" "reports env url token murl tr s c" "heartbeats env url token murl (tr @ e1) ss e2"
  shows "heartbeats env url token murl tr (s # ss) (e1 @ e2)"
  unfolding heartbeats.simps by (intro exI conjI) (rule refl, rule assms(1), rule assms(2), rule assms(3))

lemma heartbeatLoop_posts:
  "\<exists>ev. traceOf (heartbeatLoop env url token murl sels tr) = tr @ ev \<and>
    heartbeats env url token murl tr (map snd (takeWhile (\<lambda>s. fst s = TickerC) sels)) ev"
proof (induction env url token murl sels tr rule: heartbeatLoop.induct)
  case (3 env url token murl m dr sels tr)
  obtain e1 c where e1: "send env url token murl m dr tr = tr @ e1" "map fst (filter isPost e1) = [c]"
    "reports env url token murl tr (m, dr) c" by (rule send_reports)
  from 3 obtain e2 where e2: "traceOf (heartbeatLoop env url token murl sels (tr @ e1)) = tr @ e1 @ e2"
    "heartbeats env url token murl (tr @ e1) (map snd (takeWhile (\<lambda>s. fst s = TickerC) sels)) e2" by (auto simp: e1(1))
  show ?case
    by (rule exI [of _ "e1 @ e2"]) (simp add: e1(1) e2(1) heartbeats_Cons [OF e1(2,3) e2(2)] del: heartbeats.simps)
qed simp_all

text \<open>
  C32. The heartbeat posts once at the start and once for each tick until its context ends. Each time it posts to the scheduler's heartbeat
  route with the agent's token a document with the load of the host and the draining flag at that moment, and with both counters of the
  cache, lookups and hits, if and only if they could be read then.
\<close>

theorem heartbeat_posts:
  assumes "0 < interval"
  shows "\<exists>ev. traceOf (heartbeat_Start env url token murl interval m draining sels tr) = tr @ ev \<and>
    heartbeats env url token murl tr ((m, draining) # map snd (takeWhile (\<lambda>s. fst s = TickerC) sels)) ev"
proof -
  obtain e1 c where e1: "send env url token murl m draining tr = tr @ e1" "map fst (filter isPost e1) = [c]"
    "reports env url token murl tr (m, draining) c" by (rule send_reports)
  obtain e2 where e2: "traceOf (heartbeatLoop env url token murl sels (tr @ e1)) = (tr @ e1) @ e2"
    "heartbeats env url token murl (tr @ e1) (map snd (takeWhile (\<lambda>s. fst s = TickerC) sels)) e2"
    using heartbeatLoop_posts by blast
  show ?thesis
    by (rule exI [of _ "e1 @ e2"])
      (use assms in \<open>simp add: heartbeat_Start_def NewTicker_def e1(1) e2(1) heartbeats_Cons [OF e1(2,3) e2(2)] del: heartbeats.simps\<close>)
qed

theorem heartbeat_posts_witness:
  "\<exists>ev c d. traceOf (heartbeat_Start calm ''https://api'' ''secret'' [] 20000000000 (emptyManager example_cfg) False
       [(TickerC, emptyManager example_cfg, False), (CtxDoneC, emptyManager example_cfg, True)] []) = ev \<and>
     map fst (filter isPost ev) = [c, d] \<and> (\<exists>t. reports calm ''https://api'' ''secret'' [] t (emptyManager example_cfg, False) d)"
  using heartbeat_posts [of 20000000000 calm "''https://api''" "''secret''" "[]" "emptyManager example_cfg" False
    "[(TickerC, emptyManager example_cfg, False), (CtxDoneC, emptyManager example_cfg, True)]" "[]"]
  by (auto simp: Cons_eq_append_conv append_eq_Cons_conv)

end
