(* ===== verification/Go_Http.thy ===== *)
theory Go_Http
  imports World
begin

text \<open>
  The part of Go's \<open>net/http\<close> and \<open>crypto/subtle\<close> that the API uses: \<open>http.ServeMux\<close> with method
  patterns and single-segment wildcards, path cleaning with its redirect, and
  \<open>subtle.ConstantTimeCompare\<close>. A path is the escaped path of the request.
\<close>

section \<open>crypto/subtle\<close>

text \<open>One when the bytes are equal, zero otherwise; the loop looks at every byte.\<close>

fun orXor :: "8 word \<Rightarrow> string \<Rightarrow> string \<Rightarrow> 8 word" where
  "orXor v (x # xs) (y # ys) = orXor (or v (xor (of_char x) (of_char y))) xs ys"
| "orXor v _ _ = v"

definition ConstantTimeCompare :: "string \<Rightarrow> string \<Rightarrow> nat" where
  "ConstantTimeCompare x y =
     (if length x \<noteq> length y then 0 else if orXor 0 x y = 0 then 1 else 0)"

lemma byte_or_eq_0: "or v w = 0 \<longleftrightarrow> v = 0 \<and> w = (0 :: 8 word)"
  by (auto simp: bit_eq_iff bit_or_iff)

lemma byte_xor_eq_0: "xor v w = 0 \<longleftrightarrow> v = (w :: 8 word)"
  by (auto simp: bit_eq_iff bit_xor_iff)

lemma char_word_inj: "(of_char x :: 8 word) = of_char y \<longleftrightarrow> x = y"
proof
  assume "(of_char x :: 8 word) = of_char y"
  then have "(of_nat (of_char x) :: 8 word) = of_nat (of_char y)" by (simp only: of_nat_of_char)
  then have "unat (of_nat (of_char x) :: 8 word) = unat (of_nat (of_char y) :: 8 word)" by (simp only:)
  then show "x = y"
    using nat_of_char_less_256 [of x] nat_of_char_less_256 [of y]
    by (simp add: unat_of_nat del: of_nat_of_char)
qed simp

lemma orXor_eq_0: "length x = length y \<Longrightarrow> orXor v x y = 0 \<longleftrightarrow> v = 0 \<and> x = y"
  by (induction v x y rule: orXor.induct) (auto simp: byte_or_eq_0 byte_xor_eq_0 char_word_inj)

lemma ConstantTimeCompare_iff: "ConstantTimeCompare x y = 1 \<longleftrightarrow> x = y"
  by (auto simp: ConstantTimeCompare_def orXor_eq_0)

section \<open>Paths\<close>

definition cleanPath :: "string \<Rightarrow> string" where
  "cleanPath p =
     (if p = [] then ''/''
      else let p = (if hd p \<noteq> CHR ''/'' then CHR ''/'' # p else p);
               np = Clean p
           in if last p = CHR ''/'' \<and> np \<noteq> ''/'' then np @ ''/'' else np)"

definition hexVal :: "char \<Rightarrow> nat option" where
  "hexVal c =
     (let b = byte c in
      if 48 \<le> b \<and> b \<le> 57 then Some (b - 48)
      else if 97 \<le> b \<and> b \<le> 102 then Some (b - 87)
      else if 65 \<le> b \<and> b \<le> 70 then Some (b - 55)
      else None)"

fun unescape :: "string \<Rightarrow> string option" where
  "unescape [] = Some []"
| "unescape (c # cs) =
     (if c = CHR ''%'' then
        (case cs of
           x # y # rest \<Rightarrow>
             (case (hexVal x, hexVal y) of
                (Some h, Some l) \<Rightarrow> map_option ((#) (char_of (16 * h + l))) (unescape rest)
              | _ \<Rightarrow> None)
         | _ \<Rightarrow> None)
      else map_option ((#) c) (unescape cs))"

text \<open>A segment that cannot be unescaped is taken as it is.\<close>

definition pathUnescape :: "string \<Rightarrow> string" where
  "pathUnescape s = (case unescape s of None \<Rightarrow> s | Some t \<Rightarrow> t)"

text \<open>The segments of a path, one after each slash; a slash at the end is a segment of its own.\<close>

function pathSegs :: "string \<Rightarrow> string list" where
  "pathSegs p =
     (if p = [] then []
      else if p = ''/'' then [''/'']
      else pathUnescape (takeWhile (\<lambda>c. c \<noteq> CHR ''/'') (tl p)) #
             pathSegs (dropWhile (\<lambda>c. c \<noteq> CHR ''/'') (tl p)))"
  by pat_completeness auto
termination
proof (relation "measure length", goal_cases)
  case (2 p)
  then show ?case
    using length_dropWhile_le [of "\<lambda>c. c \<noteq> CHR ''/''" "tl p"] by (cases p) (simp_all add: less_Suc_eq_le)
qed simp

declare pathSegs.simps [simp del]

section \<open>ServeMux\<close>

datatype seg = Lit string | Wild string

text \<open>The wildcards' values, by name, when the segments match.\<close>

fun matchSegs :: "seg list \<Rightarrow> string list \<Rightarrow> (string \<times> string) list option" where
  "matchSegs [] [] = Some []"
| "matchSegs (Lit l # ps) (s # ss) = (if l = s then matchSegs ps ss else None)"
| "matchSegs (Wild x # ps) (s # ss) =
     (if s = ''/'' then None else map_option ((#) (x, s)) (matchSegs ps ss))"
| "matchSegs _ _ = None"

type_synonym 'h route_table = "(string \<times> seg list \<times> 'h) list"

fun findRoute :: "'h route_table \<Rightarrow> string \<Rightarrow> string list \<Rightarrow> ('h \<times> (string \<times> string) list) option" where
  "findRoute [] meth ss = None"
| "findRoute ((m, ps, h) # rs) meth ss =
     (if m = meth then
        (case matchSegs ps ss of Some b \<Rightarrow> Some (h, b) | None \<Rightarrow> findRoute rs meth ss)
      else findRoute rs meth ss)"

definition findMatch :: "'h route_table \<Rightarrow> string \<Rightarrow> string list \<Rightarrow> ('h \<times> (string \<times> string) list) option" where
  "findMatch rs meth ss =
     (case findRoute rs meth ss of
        Some r \<Rightarrow> Some r
      | None \<Rightarrow> if meth = ''HEAD'' then findRoute rs ''GET'' ss else None)"

datatype 'h muxResult =
    Handler 'h "(string \<times> string) list"
  | Redirect string
  | MethodNotAllowed
  | NotFound

definition muxMatch :: "'h route_table \<Rightarrow> string \<Rightarrow> string \<Rightarrow> 'h muxResult" where
  "muxMatch rs meth escapedPath =
     (let path = (if meth = ''CONNECT'' then escapedPath else cleanPath escapedPath);
          ss = pathSegs path
      in if path \<noteq> escapedPath then Redirect path
         else case findMatch rs meth ss of
                Some (h, b) \<Rightarrow> Handler h b
              | None \<Rightarrow>
                  if list_ex (\<lambda>r. matchSegs (fst (snd r)) ss \<noteq> None) rs then MethodNotAllowed else NotFound)"

section \<open>Paths of plain segments\<close>

text \<open>A segment of the characters ids and ports are made of is its own unescaped form.\<close>

definition plain_seg :: "string \<Rightarrow> bool" where
  "plain_seg s \<longleftrightarrow> s \<noteq> [] \<and> s \<noteq> ''.'' \<and> s \<noteq> ''..'' \<and> CHR ''/'' \<notin> set s \<and> CHR ''%'' \<notin> set s"

fun slashed :: "string list \<Rightarrow> string" where
  "slashed [] = []"
| "slashed (s # ss) = CHR ''/'' # s @ slashed ss"

lemma unescape_plain: "CHR ''%'' \<notin> set s \<Longrightarrow> unescape s = Some s"
  by (induction s rule: unescape.induct) auto

lemma slashed_cases: "slashed ss = [] \<or> hd (slashed ss) = CHR ''/''"
  by (cases ss) auto

lemma first_segment:
  "c \<notin> set s \<Longrightarrow> t = [] \<or> hd t = c \<Longrightarrow>
   takeWhile (\<lambda>x. x \<noteq> c) (s @ t) = s \<and> dropWhile (\<lambda>x. x \<noteq> c) (s @ t) = t"
proof (induction s)
  case Nil
  then show ?case by (cases t) auto
qed auto

lemma pathSegs_slashed: "list_all plain_seg ss \<Longrightarrow> pathSegs (slashed ss) = ss"
proof (induction ss)
  case Nil
  then show ?case by (simp add: pathSegs.simps)
next
  case (Cons s ss)
  have s: "CHR ''/'' \<notin> set s" "s \<noteq> []" "pathUnescape s = s"
    using Cons.prems by (auto simp: plain_seg_def pathUnescape_def unescape_plain)
  note seg = first_segment [OF s(1) slashed_cases [of ss]]
  have "pathSegs (CHR ''/'' # s @ slashed ss) = s # pathSegs (slashed ss)"
    by (subst pathSegs.simps) (simp add: s seg)
  with Cons show ?case by simp
qed

lemma cleanSegs_plain:
  "list_all plain_seg ss \<Longrightarrow> cleanSegs r kept ss = rev kept @ ss"
  by (induction ss arbitrary: kept) (auto simp: plain_seg_def)

lemma splitOn_slashed:
  "list_all plain_seg ss \<Longrightarrow> ss \<noteq> [] \<Longrightarrow> splitOn (CHR ''/'') (slashed ss) = [] # ss"
proof (induction ss)
  case (Cons s ss)
  have s: "CHR ''/'' \<notin> set s" using Cons.prems(1) by (simp add: plain_seg_def)
  show ?case
  proof (cases ss)
    case Nil
    with s show ?thesis by (simp add: splitOn_notin)
  next
    case (Cons t ts)
    then obtain rest where "slashed ss = CHR ''/'' # rest" by simp
    with s Cons Cons.IH Cons.prems(1) show ?thesis
      using splitOn_append [of "CHR ''/''" s rest] by (simp add: splitOn_notin)
  qed
qed simp

lemma joinWith_slash: "ss \<noteq> [] \<Longrightarrow> CHR ''/'' # joinWith ''/'' ss = slashed ss"
proof (induction ss)
  case (Cons s ss)
  then show ?case by (cases ss) auto
qed simp

lemma slashed_last: "list_all plain_seg ss \<Longrightarrow> ss \<noteq> [] \<Longrightarrow> last (slashed ss) \<noteq> CHR ''/''"
proof (induction ss)
  case (Cons s ss)
  then have "s \<noteq> []" "CHR ''/'' \<notin> set s" by (auto simp: plain_seg_def)
  with Cons show ?case by (cases ss) (auto dest: last_in_set)
qed simp

lemma cleanPath_slashed:
  assumes "list_all plain_seg ss" "ss \<noteq> []"
  shows "cleanPath (slashed ss) = slashed ss"
proof -
  have "slashed ss \<noteq> []" "hd (slashed ss) = CHR ''/''" using assms(2) by (cases ss; simp)+
  moreover have "Clean (slashed ss) = slashed ss"
    using assms calculation splitOn_slashed [OF assms] cleanSegs_plain [OF assms(1), of True "[]"] joinWith_slash [OF assms(2)]
    by (simp add: Clean_def Let_def)
  ultimately show ?thesis using slashed_last [OF assms] by (simp add: cleanPath_def Let_def)
qed

lemma muxMatch_plain:
  assumes "list_all plain_seg ss" "ss \<noteq> []"
  shows "muxMatch rs meth (slashed ss) =
    (case findMatch rs meth ss of
       Some (h, b) \<Rightarrow> Handler h b
     | None \<Rightarrow> if list_ex (\<lambda>r. matchSegs (fst (snd r)) ss \<noteq> None) rs then MethodNotAllowed else NotFound)"
  using cleanPath_slashed [OF assms] pathSegs_slashed [OF assms(1)]
  by (simp add: muxMatch_def Let_def)

end
