(* ===== verification/Api.thy ===== *)
theory Api
  imports Background Go_Http
begin

text \<open>
  \<open>internal/api/server.go\<close>: the HTTP surface. A handler takes the request and the shared state (the
  manager, the backend, the trace) and gives the response and the new state. A response is a
  status with a JSON document, with no document when it could not be encoded; a plain
  response of the multiplexer; a connection that was upgraded and piped to a guest, which has ended or, with neither
  side ever closing it, never ends; or nothing at all, when the connection was taken over and then lost.
\<close>

section \<open>Server, requests and responses\<close>

record Server =
  s_token :: string
  s_registryMetricsURL :: string
  s_draining :: bool

record request =
  Method :: string
  EscapedPath :: string
  Authorization :: string
  ReqBody :: content

datatype response =
    JsonResp int "json option"
  | RedirectResp string
  | PlainResp int
  | Upgraded
  | Piping
  | NoResponse

datatype handler = CreateVM | DeleteVM | ListVMs | ProxyPort | HealthH

definition routes :: "handler route_table" where
  "routes =
     [(''POST'', [Lit ''vms''], CreateVM),
      (''DELETE'', [Lit ''vms'', Wild ''id''], DeleteVM),
      (''GET'', [Lit ''vms''], ListVMs),
      (''GET'', [Lit ''vms'', Wild ''id'', Lit ''proxy'', Wild ''port''], ProxyPort),
      (''GET'', [Lit ''health''], HealthH)]"

definition NewServer :: "string \<Rightarrow> string \<Rightarrow> Server" where
  "NewServer token registryMetricsURL =
     \<lparr>s_token = token, s_registryMetricsURL = registryMetricsURL, s_draining = False\<rparr>"

definition SetDraining :: "bool \<Rightarrow> Server \<Rightarrow> Server" where
  "SetDraining v s = s\<lparr>s_draining := v\<rparr>"

definition writeJSON :: "int \<Rightarrow> json \<Rightarrow> response" where
  "writeJSON status v = JsonResp status (Some v)"

definition writeError :: "int \<Rightarrow> string \<Rightarrow> response" where
  "writeError status msg = writeJSON status (JObj [(''error'', JStr msg)])"

definition PathValue :: "string \<Rightarrow> (string \<times> string) list \<Rightarrow> string" where
  "PathValue name b = (case map_of b name of None \<Rightarrow> [] | Some v \<Rightarrow> v)"

section \<open>POST /vms\<close>

record createVMRequest =
  R_TeamID :: string
  R_TTLMinutes :: int
  R_Vcpu :: int
  R_RamMb :: int

definition setCreateField :: "string \<Rightarrow> json \<Rightarrow> createVMRequest \<Rightarrow> createVMRequest option" where
  "setCreateField k j r =
     (if j = JNull then Some r
      else if k = ''team_id'' then map_option (\<lambda>s. r\<lparr>R_TeamID := s\<rparr>) (strValue j)
      else if k = ''ttl_minutes'' then map_option (\<lambda>n. r\<lparr>R_TTLMinutes := n\<rparr>) (intValue j)
      else if k = ''vcpu'' then map_option (\<lambda>n. r\<lparr>R_Vcpu := n\<rparr>) (intValue j)
      else if k = ''ram_mb'' then map_option (\<lambda>n. r\<lparr>R_RamMb := n\<rparr>) (intValue j)
      else Some r)"

fun decodeCreate :: "content \<Rightarrow> createVMRequest option" where
  "decodeCreate (Doc j) =
     decodeObj setCreateField j \<lparr>R_TeamID = [], R_TTLMinutes = 0, R_Vcpu = 0, R_RamMb = 0\<rparr>"
| "decodeCreate (Text _) = None"

definition handleCreateVM ::
  "env \<Rightarrow> 'b Backend \<Rightarrow> Server \<Rightarrow> content \<Rightarrow> Manager \<Rightarrow> 'b \<Rightarrow> trace \<Rightarrow> (response \<times> Manager \<times> 'b \<times> trace) option" where
  "handleCreateVM env B s body m b tr =
     (if s_draining s then Some (writeError 503 ''host_draining'', m, b, tr)
      else case decodeCreate body of
        None \<Rightarrow> Some (writeError 400 ''invalid_body'', m, b, tr)
      | Some req \<Rightarrow>
          if R_TeamID req = [] then Some (writeError 400 ''team_id_required'', m, b, tr)
          else if R_Vcpu req \<le> 0 \<or> R_RamMb req \<le> 0 then
            Some (writeError 400 ''vcpu_and_ram_mb_required'', m, b, tr)
          else Option.bind
            (Create env B (R_TeamID req) (R_TTLMinutes req) (R_Vcpu req) (R_RamMb req) m b tr)
            (\<lambda>(r, m, b, tr). case r of
               Inl err \<Rightarrow>
                 if errors_Is err ErrNoCapacity then Some (writeError 409 ''no_capacity'', m, b, tr)
                 else Some (writeError 500 ''create_failed'', m, b, tr)
             | Inr vm \<Rightarrow>
                 Some (writeJSON 201 (JObj [(''docker_endpoint'', JStr (DockerEndpoint vm)),
                     (''vm_id'', JStr (ID vm))]), m, b, tr)))"

section \<open>DELETE /vms/{id} and GET /vms\<close>

definition handleDeleteVM ::
  "env \<Rightarrow> 'b Backend \<Rightarrow> string \<Rightarrow> Manager \<Rightarrow> 'b \<Rightarrow> trace \<Rightarrow> response \<times> Manager \<times> 'b \<times> trace" where
  "handleDeleteVM env B vmid m b tr =
     (case Destroy env B vmid m b tr of
        (Some err, m, b, tr) \<Rightarrow>
          if errors_Is err ErrNotFound then (writeError 404 ''not_found'', m, b, tr)
          else (writeError 500 ''destroy_failed'', m, b, tr)
      | (None, m, b, tr) \<Rightarrow> (writeJSON 200 (JObj [(''ok'', JBool True)]), m, b, tr))"

definition listEntry :: "int \<Rightarrow> VM \<Rightarrow> json" where
  "listEntry z vm = JObj
     [(''created_at'', JStr (formatRFC3339 z (CreatedAt vm))),
      (''docker_endpoint'', JStr (DockerEndpoint vm)),
      (''expires_at'', JStr (formatRFC3339 z (ExpiresAt vm))),
      (''team_id'', JStr (TeamID vm)), (''vm_id'', JStr (ID vm))]"

text \<open>A time outside the years 0 to 9999 cannot be encoded.\<close>

definition handleListVMs :: "env \<Rightarrow> Manager \<Rightarrow> response" where
  "handleListVMs env m =
     (let z = e_zone env; l = List m in
      JsonResp 200
        (if list_all (\<lambda>vm. yearOk z (CreatedAt vm) \<and> yearOk z (ExpiresAt vm)) l
         then Some (JObj [(''vms'', JArr (map (listEntry z) l))]) else None))"

section \<open>GET /vms/{id}/proxy/{port}\<close>

definition upgradeReply :: string where
  "upgradeReply =
     ''HTTP/1.1 101 Switching Protocols'' @ [CHR 0x0D, CHR 0x0A] @ ''Upgrade: tcp'' @
     [CHR 0x0D, CHR 0x0A] @ ''Connection: Upgrade'' @ [CHR 0x0D, CHR 0x0A, CHR 0x0D, CHR 0x0A]"

text \<open>
  From the hijack on: the deferred closes run on every way out, the guest's first. The handler waits for the first of the two copies to
  end; while both go on it does not return, and \<open>Piping\<close> stands for that.
\<close>

definition proxyPipe :: "env \<Rightarrow> trace \<Rightarrow> response \<times> trace" where
  "proxyPipe env tr =
     (let tr = performIgnore env SetDeadline tr;
          close = (\<lambda>tr. performIgnore env ClientClose (performIgnore env ConnClose tr))
      in case perform env (BufWrite upgradeReply) tr of
           (Some _, tr) \<Rightarrow> (NoResponse, close tr)
         | (None, tr) \<Rightarrow>
             (case perform env BufFlush tr of
                (Some _, tr) \<Rightarrow> (NoResponse, close tr)
              | (None, tr) \<Rightarrow>
                  (let tr = performIgnore env PipeBoth tr
                   in if e_pipeEnds env tr then (Upgraded, close tr) else (Piping, tr))))"

definition handleProxyPort :: "env \<Rightarrow> string \<Rightarrow> string \<Rightarrow> Manager \<Rightarrow> trace \<Rightarrow> response \<times> trace" where
  "handleProxyPort env vmid portStr m tr =
     (case Atoi portStr of
        Inl _ \<Rightarrow> (writeError 400 ''invalid_port'', tr)
      | Inr port \<Rightarrow>
          if port < 1 \<or> 65535 < port then (writeError 400 ''invalid_port'', tr)
          else case GuestAddr vmid port m of
            Inl _ \<Rightarrow> (writeError 404 ''not_found'', tr)
          | Inr addr \<Rightarrow>
              (case perform env (DialTimeout addr (10000 * millisecond)) tr of
                 (Some _, tr) \<Rightarrow> (writeError 502 ''guest_dial_failed'', tr)
               | (None, tr) \<Rightarrow>
                   (case perform env AssertHijacker tr of
                      (Some _, tr) \<Rightarrow>
                        (writeError 500 ''hijack_unsupported'', performIgnore env ConnClose tr)
                    | (None, tr) \<Rightarrow>
                        (case perform env Hijack tr of
                           (Some _, tr) \<Rightarrow> (NoResponse, performIgnore env ConnClose tr)
                         | (None, tr) \<Rightarrow> proxyPipe env tr))))"

section \<open>GET /health\<close>

definition handleHealth :: "env \<Rightarrow> Server \<Rightarrow> Manager \<Rightarrow> trace \<Rightarrow> response \<times> trace" where
  "handleHealth env s m tr =
     (let h = Health env m tr in
      case Scrape env (s_registryMetricsURL s) tr of
        ((lookups, hits, ok), tr) \<Rightarrow>
          (writeJSON 200 (JObj
             ([(''active_vm_count'', JInt (ActiveVMCount h))] @
              (if ok then [(''cache_hits'', JInt (uint hits)), (''cache_lookups'', JInt (uint lookups))] else []) @
              [(''cpu_total'', JInt (CPUTotal h)), (''cpu_used'', JInt (CPUUsed h)),
               (''draining'', JBool (s_draining s)), (''ram_total_mb'', JInt (RAMTotalMb h)),
               (''ram_used_mb'', JInt (RAMUsedMb h))])), tr))"

section \<open>Serving\<close>

definition muxServe ::
  "env \<Rightarrow> 'b Backend \<Rightarrow> Server \<Rightarrow> request \<Rightarrow> Manager \<Rightarrow> 'b \<Rightarrow> trace \<Rightarrow> (response \<times> Manager \<times> 'b \<times> trace) option" where
  "muxServe env B s r m b tr =
     (case muxMatch routes (Method r) (EscapedPath r) of
        Redirect p \<Rightarrow> Some (RedirectResp p, m, b, tr)
      | MethodNotAllowed \<Rightarrow> Some (PlainResp 405, m, b, tr)
      | NotFound \<Rightarrow> Some (PlainResp 404, m, b, tr)
      | Handler CreateVM _ \<Rightarrow> handleCreateVM env B s (ReqBody r) m b tr
      | Handler DeleteVM v \<Rightarrow> Some (handleDeleteVM env B (PathValue ''id'' v) m b tr)
      | Handler ListVMs _ \<Rightarrow> Some (handleListVMs env m, m, b, tr)
      | Handler ProxyPort v \<Rightarrow>
          (let (resp, tr) = handleProxyPort env (PathValue ''id'' v) (PathValue ''port'' v) m tr
           in Some (resp, m, b, tr))
      | Handler HealthH _ \<Rightarrow>
          (let (resp, tr) = handleHealth env s m tr in Some (resp, m, b, tr)))"

definition ServeHTTP ::
  "env \<Rightarrow> 'b Backend \<Rightarrow> Server \<Rightarrow> request \<Rightarrow> Manager \<Rightarrow> 'b \<Rightarrow> trace \<Rightarrow> (response \<times> Manager \<times> 'b \<times> trace) option" where
  "ServeHTTP env B s r m b tr =
     (if ConstantTimeCompare (Authorization r) (''Bearer '' @ s_token s) \<noteq> 1
      then Some (writeJSON 401 (JObj [(''error'', JStr ''invalid_agent_token'')]), m, b, tr)
      else muxServe env B s r m b tr)"

lemmas api_defs [ops] =
  NewServer_def SetDraining_def writeJSON_def writeError_def setCreateField_def handleCreateVM_def
  handleDeleteVM_def handleListVMs_def proxyPipe_def handleProxyPort_def handleHealth_def
  muxServe_def ServeHTTP_def

end
