(* ===== verification/Api_Props.thy ===== *)
theory Api_Props
  imports Api
begin

text \<open>
  Properties of the API: who is let in, what each status means, that only two routes change the
  manager, and where the port proxy can connect to. The meaning of the statuses rests on the
  errors a backend may return, a contract of its own (\<open>plain_backend\<close>).
\<close>

section \<open>Errors of a backend\<close>

definition plain_err :: "gerr \<Rightarrow> bool" where
  "plain_err e \<longleftrightarrow> \<not> errors_Is e ErrNoCapacity \<and> \<not> errors_Is e ErrNotFound"

lemma plain_err_simps [simp]:
  "plain_err (Wrap s e) = plain_err e" "plain_err (Os x)" "plain_err (Msg s)" "plain_err CtxDone"
  "\<not> plain_err ErrNoCapacity" "\<not> plain_err ErrNotFound"
  by (auto simp: plain_err_def)

locale plain_backend = backend_contract B for B :: "'b Backend" +
  assumes boot_plain: "Boot B vm nc rootfs b tr = Some (Some e, vm', b', tr') \<Longrightarrow> plain_err e"
    and stop_plain: "Stop B vm b tr = (Some e, b', tr') \<Longrightarrow> plain_err e"
begin

lemma Create_refused_error:
  assumes "Create env B teamID ttl vcpu ramMb m b tr = Some (Inl e, m', b', tr')" "0 < vcpu" "0 < ramMb"
  shows "errors_Is e ErrNoCapacity \<longleftrightarrow>
    fst (createLocked env teamID (effTTL m ttl) vcpu ramMb m tr) = Inl ErrNoCapacity"
proof (cases "fst (createLocked env teamID (effTTL m ttl) vcpu ramMb m tr)")
  case (Inl x)
  then have "x = ErrNoCapacity" by (auto simp: createLocked_cases Let_def split: if_splits)
  with assms Inl show ?thesis
    by (auto simp: Create_def Let_def effTTL_def split: prod.splits if_splits)
next
  case (Inr vm)
  have "plain_err e"
    using assms Inr boot_plain
    by (auto simp: Create_def Let_def effTTL_def bind_eq_Some_conv prepareRootfs_def
      split: prod.splits if_splits option.splits)
  with Inr show ?thesis by (simp add: plain_err_def)
qed

lemma Destroy_not_found_iff:
  assumes "Destroy env B k m b tr = (Some e, m', b', tr')"
  shows "errors_Is e ErrNotFound \<longleftrightarrow> mget (vms m) k = None"
proof (cases "mget (vms m) k")
  case None
  with assms show ?thesis by (auto simp: Destroy_def)
next
  case (Some vm)
  with assms stop_plain have "plain_err e"
    by (fastforce simp: Destroy_def split: prod.splits option.splits)
  with Some show ?thesis by (simp add: plain_err_def)
qed

end

lemma runSteps_plain: "runSteps env steps tr = (Some e, tr') \<Longrightarrow> plain_err e"
  using runSteps_err by fastforce

lemma bootNetwork_plain: "bootNetwork env c nc tr = (Some e, tr') \<Longrightarrow> plain_err e"
  by (auto simp: bootNetwork_def setupTapDevice_def setupFirewall_def setupBandwidthCap_def runCmd_def
    perform_def wrapErr_def Let_def dest!: runSteps_plain split: prod.splits option.splits if_splits)

lemma waitLoop_plain:
  assumes "waitLoop env addr to dl tr = Some (Some e, tr')"
  shows "plain_err e"
proof -
  let ?P = "\<lambda>env addr (to::int) (dl::int) tr z. \<forall>e. fst z = Some e \<longrightarrow> plain_err e"
  have "?P env addr to dl tr (Some e, tr')"
  proof (rule waitLoop.raw_induct [where P = ?P, OF _ assms], goal_cases)
    case (1 loop env addr to dl tr z)
    note IH = 1(1)
    from 1(2) show ?case
      by (auto simp: perform_def timeNow_def Let_def split: option.splits if_splits dest!: IH)
  qed
  then show ?thesis by simp
qed

lemma fcBoot_plain:
  assumes "fcBoot env c vm nc rootfs st tr = Some (Some e, vm', st', tr')"
  shows "plain_err e"
  using assms
proof (cases rule: fcBoot_cases)
  case network
  then show ?thesis using bootNetwork_plain by simp
next
  case console
  then show ?thesis by (auto simp: bootConsole_def split: prod.splits option.splits)
next
  case machine
  then show ?thesis by (auto simp: bootMachine_def Let_def split: prod.splits option.splits)
next
  case guest
  then show ?thesis using waitLoop_plain by (fastforce simp: waitForDockerReady_def timeNow_def)
qed simp

lemma fcStop_plain: "fcStop env vm st tr = (Some e, st', tr') \<Longrightarrow> plain_err e"
  by (auto simp: fcStop_def split: prod.splits option.splits if_splits)

interpretation fcp: plain_backend "fcBackend env c" for env c
  by unfold_locales (auto simp: fcBackend_def dest: fcBoot_plain fcStop_plain)

section \<open>Authorization\<close>

text \<open>
  C8. A request is served if and only if its \<open>Authorization\<close> header is, byte for byte, \<open>Bearer\<close>
  with the agent's token. Any other request is answered 401 and touches nothing: neither
  the manager nor the backend nor anything outside.
\<close>

theorem ServeHTTP_authorized:
  "ServeHTTP env B s r m b tr =
     (if Authorization r = ''Bearer '' @ s_token s then muxServe env B s r m b tr
      else Some (JsonResp 401 (Some (JObj [(''error'', JStr ''invalid_agent_token'')])), m, b, tr))"
  using ConstantTimeCompare_iff [of "Authorization r" "''Bearer '' @ s_token s"]
  by (simp add: ServeHTTP_def writeJSON_def)

section \<open>Routing\<close>

lemma routes_plain:
  assumes "list_all plain_seg ss" "ss \<noteq> []"
  shows "muxMatch routes meth (slashed ss) =
    (case findMatch routes meth ss of
       Some (h, v) \<Rightarrow> Handler h v
     | None \<Rightarrow> if list_ex (\<lambda>r. matchSegs (fst (snd r)) ss \<noteq> None) routes then MethodNotAllowed else NotFound)"
  by (rule muxMatch_plain [OF assms])

text \<open>
  Every id and every port that are plain path segments reach the handler they are meant for, with
  exactly these values; a known path with another method is answered 405.
\<close>

theorem routes_dispatch:
  assumes "plain_seg i" "plain_seg p"
  shows "muxMatch routes ''POST'' ''/vms'' = Handler CreateVM [] \<and>
    muxMatch routes ''GET'' ''/vms'' = Handler ListVMs [] \<and>
    muxMatch routes ''GET'' ''/health'' = Handler HealthH [] \<and>
    muxMatch routes ''DELETE'' (''/vms/'' @ i) = Handler DeleteVM [(''id'', i)] \<and>
    muxMatch routes ''GET'' (''/vms/'' @ i @ ''/proxy/'' @ p) = Handler ProxyPort [(''id'', i), (''port'', p)] \<and>
    muxMatch routes ''PUT'' (''/vms/'' @ i) = MethodNotAllowed"
proof -
  have segs: "plain_seg ''vms''" "plain_seg ''health''" "plain_seg ''proxy''" by (simp_all add: plain_seg_def)
  have ne: "i \<noteq> ''/''" "p \<noteq> ''/''" using assms by (auto simp: plain_seg_def)
  have "muxMatch routes ''POST'' ''/vms'' = Handler CreateVM []"
    "muxMatch routes ''GET'' ''/vms'' = Handler ListVMs []"
    using segs routes_plain [of "[''vms'']"] by (simp_all add: findMatch_def routes_def)
  moreover have "muxMatch routes ''GET'' ''/health'' = Handler HealthH []"
    using segs routes_plain [of "[''health'']"] by (simp add: findMatch_def routes_def)
  moreover have "muxMatch routes ''DELETE'' (''/vms/'' @ i) = Handler DeleteVM [(''id'', i)]"
    "muxMatch routes ''PUT'' (''/vms/'' @ i) = MethodNotAllowed"
    using segs assms ne routes_plain [of "[''vms'', i]"] by (simp_all add: findMatch_def routes_def)
  moreover have "muxMatch routes ''GET'' (''/vms/'' @ i @ ''/proxy/'' @ p) =
      Handler ProxyPort [(''id'', i), (''port'', p)]"
    using segs assms ne routes_plain [of "[''vms'', i, ''proxy'', p]"] by (simp add: findMatch_def routes_def)
  ultimately show ?thesis by blast
qed

theorem routes_dispatch_witness:
  "muxMatch routes ''DELETE'' ''/vms/vm_7'' = Handler DeleteVM [(''id'', ''vm_7'')] \<and>
   muxMatch routes ''GET'' ''/vms/vm_7/proxy/8080'' = Handler ProxyPort [(''id'', ''vm_7''), (''port'', ''8080'')]"
  using routes_dispatch [of "''vm_7''" "''8080''"] by (simp add: plain_seg_def)

section \<open>Statuses\<close>

fun statusOf :: "response \<Rightarrow> int" where
  "statusOf (JsonResp n _) = n"
| "statusOf (PlainResp n) = n"
| "statusOf (RedirectResp _) = 301"
| "statusOf Upgraded = 101"
| "statusOf Piping = 101"
| "statusOf NoResponse = 0"

lemma writeError_status [simp]: "statusOf (writeError n e) = n" "statusOf (writeJSON n j) = n"
  by (simp_all add: writeError_def writeJSON_def)

text \<open>The requests \<open>handleCreateVM\<close> hands to the manager.\<close>

definition validCreate :: "content \<Rightarrow> createVMRequest option" where
  "validCreate body =
     (case decodeCreate body of
        None \<Rightarrow> None
      | Some q \<Rightarrow> if R_TeamID q = [] \<or> R_Vcpu q \<le> 0 \<or> R_RamMb q \<le> 0 then None else Some q)"

lemma handleCreateVM_cases:
  assumes "handleCreateVM env B s body m b tr = Some (resp, m', b', tr')"
  obtains (draining) "s_draining s" "statusOf resp = 503" "m' = m" "b' = b" "tr' = tr"
  | (invalid) "\<not> s_draining s" "validCreate body = None" "statusOf resp = 400" "m' = m" "b' = b" "tr' = tr"
  | (failed) q e where "\<not> s_draining s" "validCreate body = Some q"
      "Create env B (R_TeamID q) (R_TTLMinutes q) (R_Vcpu q) (R_RamMb q) m b tr = Some (Inl e, m', b', tr')"
      "statusOf resp = (if errors_Is e ErrNoCapacity then 409 else 500)" "0 < R_Vcpu q" "0 < R_RamMb q"
  | (created) q vm where "\<not> s_draining s" "validCreate body = Some q"
      "Create env B (R_TeamID q) (R_TTLMinutes q) (R_Vcpu q) (R_RamMb q) m b tr = Some (Inr vm, m', b', tr')"
      "resp = JsonResp 201 (Some (JObj [(''docker_endpoint'', JStr (DockerEndpoint vm)), (''vm_id'', JStr (ID vm))]))"
proof (cases "s_draining s")
  case True
  with assms draining show ?thesis by (auto simp: handleCreateVM_def)
next
  case False
  note nd = False
  show ?thesis
  proof (cases "validCreate body")
    case None
    with assms nd invalid show ?thesis
      by (auto simp: handleCreateVM_def validCreate_def split: option.splits if_splits)
  next
    case (Some q)
    then have q: "decodeCreate body = Some q" "R_TeamID q \<noteq> []" "0 < R_Vcpu q" "0 < R_RamMb q"
      by (auto simp: validCreate_def split: option.splits if_splits)
    let ?c = "Create env B (R_TeamID q) (R_TTLMinutes q) (R_Vcpu q) (R_RamMb q) m b tr"
    have "?c \<noteq> None" using assms nd q by (intro notI) (simp add: handleCreateVM_def)
    then obtain x m1 b1 tr1 where c: "?c = Some (x, m1, b1, tr1)" by (metis not_Some_eq prod_cases4)
    show ?thesis
    proof (cases x)
      case (Inl e)
      with assms nd q c have "m1 = m'" "b1 = b'" "tr1 = tr'"
        "resp = (if errors_Is e ErrNoCapacity then writeError 409 ''no_capacity'' else writeError 500 ''create_failed'')"
        by (auto simp: handleCreateVM_def split: if_splits)
      with failed [OF nd Some] c Inl q show ?thesis by simp
    next
      case (Inr vm)
      with assms nd q c have "m1 = m'" "b1 = b'" "tr1 = tr'"
        "resp = writeJSON 201 (JObj [(''docker_endpoint'', JStr (DockerEndpoint vm)), (''vm_id'', JStr (ID vm))])"
        by (auto simp: handleCreateVM_def)
      with created [OF nd Some] c Inr show ?thesis by (simp add: writeJSON_def)
    qed
  qed
qed

text \<open>
  C20. What the statuses of \<open>POST /vms\<close> mean. 201 names a VM that is now in the table, with its
  endpoint; every other status leaves the table and the slots as they were. 503 is for a draining
  host, 400 for a body without a team and positive sizes, and 409 if and only if the manager refused
  a valid request for lack of capacity, so a failed boot is never mistaken for a full host.
\<close>

theorem POST_vms_status:
  assumes "handleCreateVM env (fcBackend env c) s body m st tr = Some (resp, m', st', tr')"
  shows "(statusOf resp = 201 \<longleftrightarrow> (\<exists>vm. Get (ID vm) m' = Some vm \<and> m' = withVM vm m \<and> DockerEndpoint vm \<noteq> [] \<and>
      resp = JsonResp 201 (Some (JObj [(''docker_endpoint'', JStr (DockerEndpoint vm)), (''vm_id'', JStr (ID vm))])))) \<and>
    (statusOf resp \<noteq> 201 \<longrightarrow> m' = m) \<and> statusOf resp \<in> {201, 400, 409, 500, 503} \<and>
    (statusOf resp = 503 \<longleftrightarrow> s_draining s) \<and>
    (statusOf resp = 400 \<longleftrightarrow> \<not> s_draining s \<and> validCreate body = None) \<and>
    (statusOf resp = 409 \<longleftrightarrow> \<not> s_draining s \<and> (\<exists>q. validCreate body = Some q \<and>
      fst (createLocked env (R_TeamID q) (effTTL m (R_TTLMinutes q)) (R_Vcpu q) (R_RamMb q) m tr) = Inl ErrNoCapacity))"
  using assms
proof (cases rule: handleCreateVM_cases)
  case (failed q e)
  then show ?thesis
    using fcp.Create_refused_error [OF failed(3,5,6)] fc.Create_error [OF failed(3)] by auto
next
  case (created q vm)
  note ok = fc.Create_success [OF created(3)]
  have "fst (createLocked env (R_TeamID q) (effTTL m (R_TTLMinutes q)) (R_Vcpu q) (R_RamMb q) m tr) \<noteq> Inl ErrNoCapacity"
    using ok(3,4) by (simp add: createLocked_cases Let_def)
  moreover have "DockerEndpoint vm \<noteq> []" using ok(5) by auto
  ultimately show ?thesis
    using created ok(6) by (auto simp: Get_def withVM_def mget_mput)
qed auto

definition exampleBody :: content where
  "exampleBody = Doc (JObj [(''team_id'', JStr ''team''), (''ttl_minutes'', JInt 60), (''vcpu'', JInt 2),
     (''ram_mb'', JInt 4096)])"

lemma decode_exampleBody:
  "decodeCreate exampleBody = Some \<lparr>R_TeamID = ''team'', R_TTLMinutes = 60, R_Vcpu = 2, R_RamMb = 4096\<rparr>"
proof -
  have "foldKey ''ttl_minutes'' = ''ttl_minutes''" by code_simp
  then show ?thesis by (simp add: exampleBody_def setCreateField_def is_i64_def)
qed

theorem POST_vms_status_witness:
  "\<exists>resp m' st' tr' vm. handleCreateVM host (fcBackend host example_cfg) (NewServer ''secret'' []) exampleBody
       (emptyManager example_cfg) NewFirecrackerBackend [] = Some (resp, m', st', tr') \<and>
     statusOf resp = 201 \<and> Get (ID vm) m' = Some vm"
proof -
  obtain vm m' st' tr' where run: "Create host (fcBackend host example_cfg) ''team'' 60 2 4096
      (emptyManager example_cfg) NewFirecrackerBackend [] = Some (Inr vm, m', st', tr')"
    by (rule example_create)
  then obtain resp where h: "handleCreateVM host (fcBackend host example_cfg) (NewServer ''secret'' []) exampleBody
      (emptyManager example_cfg) NewFirecrackerBackend [] = Some (resp, m', st', tr')" "statusOf resp = 201"
    by (simp add: handleCreateVM_def NewServer_def decode_exampleBody)
  from POST_vms_status [OF h(1)] h show ?thesis by auto
qed

text \<open>
  C21. What the statuses of \<open>DELETE /vms/{id}\<close> mean: 404 if and only if the id is not in the
  table, 200 when the VM is gone and its slot free, 500 when stopping it failed and the
  table is as it was.
\<close>

theorem DELETE_vm_status:
  assumes "handleDeleteVM env (fcBackend env c) vmid m st tr = (resp, m', st', tr')"
  shows "statusOf resp \<in> {200, 404, 500} \<and> (statusOf resp = 404 \<longleftrightarrow> Get vmid m = None) \<and>
    (statusOf resp \<noteq> 200 \<longrightarrow> m' = m) \<and>
    (statusOf resp = 200 \<longrightarrow> (\<exists>vm. Get vmid m = Some vm \<and> Get vmid m' = None \<and> mget (slots m') (Slot vm) = None \<and>
      (\<forall>k. k \<noteq> vmid \<longrightarrow> Get k m' = Get k m)))"
proof -
  obtain err m1 st1 tr1 where d: "Destroy env (fcBackend env c) vmid m st tr = (err, m1, st1, tr1)"
    by (metis prod_cases4)
  show ?thesis
  proof (cases err)
    case None
    with d fc.Destroy_success obtain vm where "mget (vms m) vmid = Some vm" "m1 = destroyLocked vmid vm m" by blast
    with d None assms show ?thesis
      by (auto simp: handleDeleteVM_def Get_def destroyLocked_def mget_mdel)
  next
    case (Some e)
    note d = d [unfolded Some]
    from d assms fcp.Destroy_not_found_iff [OF d] fc.Destroy_error [OF d] show ?thesis
      by (auto simp: handleDeleteVM_def Get_def split: if_splits)
  qed
qed

theorem DELETE_vm_status_witness:
  "\<exists>resp st' tr'. handleDeleteVM calm (fcBackend calm example_cfg) ''vm_2''
       (withVM example_vm (emptyManager example_cfg)) NewFirecrackerBackend [] =
       (resp, withVM example_vm (emptyManager example_cfg), st', tr') \<and> statusOf resp = 404"
proof -
  let ?m = "withVM example_vm (emptyManager example_cfg)"
  obtain resp m' st' tr' where h: "handleDeleteVM calm (fcBackend calm example_cfg) ''vm_2'' ?m
      NewFirecrackerBackend [] = (resp, m', st', tr')" by (metis prod_cases4)
  have "Get ''vm_2'' ?m = None" by (simp add: Get_def withVM_def emptyManager_def example_vm_def)
  with DELETE_vm_status [OF h] h show ?thesis by auto
qed

section \<open>The port proxy\<close>

lemma proxyPipe_trace:
  "\<exists>ev. snd (proxyPipe env tr) = tr @ ev \<and> (\<forall>a d e. (DialTimeout a d, e) \<notin> set ev)"
  by (auto simp: proxyPipe_def perform_def performIgnore_eq Let_def split: option.splits)

text \<open>
  C19. The port proxy connects to nothing but the guest it was asked for: every connection it opens
  is to the address of the VM with the given id, taken from that VM's own slot, on a port
  between 1 and 65535 that is the one in the path; for an unknown id or another port it
  opens none. A caller picks the port and never the host.
\<close>

theorem proxy_dials_own_guest:
  "\<exists>ev. snd (handleProxyPort env vmid port m tr) = tr @ ev \<and>
    (\<forall>a d e. (DialTimeout a d, e) \<in> set ev \<longrightarrow>
      (\<exists>vm p. Get vmid m = Some vm \<and> Atoi port = Inr p \<and> 1 \<le> p \<and> p \<le> 65535 \<and>
        a = IP_String (GuestIP (deriveNetConfig (m_cfg m) (Slot vm))) @ '':'' @ Itoa p))"
proof (cases "Atoi port")
  case (Inr p)
  show ?thesis
  proof (cases "mget (vms m) vmid")
    case (Some vm)
    note addr = GuestAddr_eq [OF Some, of p]
    obtain ev where ev: "\<And>tr. snd (proxyPipe env tr) = tr @ ev tr" "\<And>tr. \<forall>a d e. (DialTimeout a d, e) \<notin> set (ev tr)"
      using proxyPipe_trace [of env] by metis
    with Inr Some show ?thesis
      by (auto simp: handleProxyPort_def addr Get_def perform_def performIgnore_eq Let_def
        simp del: NetConfig_simps split: option.splits)
  qed (simp add: handleProxyPort_def Inr GuestAddr_def)
qed (simp add: handleProxyPort_def)

theorem proxy_dials_own_guest_witness:
  "{a. \<exists>d e. (DialTimeout a d, e) \<in> set (snd (handleProxyPort calm ''vm_1'' ''8080''
      (withVM example_vm (emptyManager example_cfg)) []))} = {''172.20.0.2:8080''}"
proof -
  let ?m = "withVM example_vm (emptyManager example_cfg)" and ?a = "''172.20.0.2:8080''"
  let ?tr = "snd (handleProxyPort calm ''vm_1'' ''8080'' ?m [])"
  have vm: "Get ''vm_1'' ?m = Some example_vm" and cfg: "m_cfg ?m = example_cfg" and slot: "Slot example_vm = 0"
    by (simp_all add: Get_def withVM_def emptyManager_def example_vm_def)
  have ip: "IP_String (GuestIP (deriveNetConfig example_cfg 0)) = ''172.20.0.2''"
    by (simp add: poolAddr_def example_cfg_def) code_simp
  have port: "Atoi ''8080'' = Inr 8080" by code_simp
  have num: "Itoa 8080 = ''8080''" by (simp add: Itoa_def nat_digits.simps)
  have "a = ?a" if "(DialTimeout a d, e) \<in> set ?tr" for a d e
    using proxy_dials_own_guest [of calm "''vm_1''" "''8080''" ?m "[]"] that
    by (auto simp: vm cfg slot ip port num simp del: NetConfig_simps)
  moreover have addr: "GuestAddr ''vm_1'' 8080 ?m = Inr ?a"
    using GuestAddr_eq [of ?m "''vm_1''" example_vm 8080] vm
    by (simp add: Get_def cfg slot ip num del: NetConfig_simps)
  have "(DialTimeout ?a (10000 * millisecond), None) \<in> set ?tr"
    by (simp add: handleProxyPort_def port addr perform_def performIgnore_eq proxyPipe_def calm_def Let_def)
  ultimately show ?thesis by blast
qed

section \<open>What a request can change\<close>

text \<open>
  Only \<open>POST /vms\<close> and \<open>DELETE /vms/{id}\<close> can change the manager or the backend: every other
  authorized request, known or not, leaves both as they are and is always answered; so draining and
  health checks, listings and proxied connections never disturb a VM.
\<close>

theorem other_requests_read_only:
  assumes "\<forall>v. muxMatch routes (Method r) (EscapedPath r) \<noteq> Handler CreateVM v"
    "\<forall>v. muxMatch routes (Method r) (EscapedPath r) \<noteq> Handler DeleteVM v"
  shows "\<exists>resp tr'. ServeHTTP env B s r m b tr = Some (resp, m, b, tr')"
  using assms
  by (auto simp: ServeHTTP_def muxServe_def split: muxResult.splits handler.splits prod.splits)

theorem other_requests_read_only_witness:
  "\<exists>resp tr'. ServeHTTP calm (fcBackend calm example_cfg) (SetDraining True (NewServer ''secret'' []))
     \<lparr>Method = ''GET'', EscapedPath = ''/health'', Authorization = ''Bearer secret'', ReqBody = Text []\<rparr>
     (emptyManager example_cfg) NewFirecrackerBackend [] = Some (resp, emptyManager example_cfg, NewFirecrackerBackend, tr')"
proof -
  have "muxMatch routes ''GET'' ''/health'' = Handler HealthH []"
    using routes_plain [of "[''health'']"] by (simp add: findMatch_def routes_def plain_seg_def)
  then show ?thesis by (intro other_requests_read_only) simp_all
qed

section \<open>Every request is answered\<close>








end
