(* ===== verification/Agent.thy ===== *)
theory Agent
  imports Api
begin

text \<open>
  \<open>cmd/agent/main.go\<close>: how the parts are put together, and the life of the process from its start
  to its shutdown as a step relation over the flags the goroutines share: the context, the
  two draining flags, the listener, and the heartbeat that is being made or under way.
\<close>

section \<open>Start\<close>

record parts =
  p_cfg :: Config
  p_backend :: FcState
  p_manager :: Manager
  p_server :: Server
  p_reaperInterval :: int
  p_heartbeatInterval :: int

text \<open>The part of \<open>main\<close> before the goroutines; an error ends the process with its message.\<close>

definition main_start :: "environ \<Rightarrow> env \<Rightarrow> trace \<Rightarrow> (gerr + parts) \<times> trace" where
  "main_start getenv env tr =
     (case Load getenv of
        Inl err \<Rightarrow> (Inl (Wrap ''config'' err), tr)
      | Inr cfg \<Rightarrow>
          (case New env cfg tr of
             (Inl err, tr) \<Rightarrow> (Inl (Wrap ''vmmanager'' err), tr)
           | (Inr m, tr) \<Rightarrow>
               (Inr \<lparr>p_cfg = cfg, p_backend = NewFirecrackerBackend, p_manager = m,
                     p_server = NewServer (AgentToken cfg) (RegistryMetricsURL cfg),
                     p_reaperInterval = i64 (ReaperIntervalSeconds cfg * time_Second),
                     p_heartbeatInterval = HeartbeatInterval cfg\<rparr>, tr)))"

section \<open>Running and shutting down\<close>

datatype mainPhase = MWait | MStored | MServer | MShutdown

text \<open>The phases in the order \<open>main\<close> goes through them.\<close>

fun phaseNo :: "mainPhase \<Rightarrow> nat" where
  "phaseNo MWait = 0"
| "phaseNo MStored = 1"
| "phaseNo MServer = 2"
| "phaseNo MShutdown = 3"

lemma phaseNo_inj: "phaseNo p = phaseNo q \<longleftrightarrow> p = q"
  by (cases p; cases q) simp_all

instantiation mainPhase :: linorder
begin

definition less_eq_mainPhase :: "mainPhase \<Rightarrow> mainPhase \<Rightarrow> bool" where
  "less_eq_mainPhase p q \<longleftrightarrow> phaseNo p \<le> phaseNo q"

definition less_mainPhase :: "mainPhase \<Rightarrow> mainPhase \<Rightarrow> bool" where
  "less_mainPhase p q \<longleftrightarrow> phaseNo p < phaseNo q"

instance
  by standard (auto simp: less_eq_mainPhase_def less_mainPhase_def phaseNo_inj)

end

text \<open>
  A heartbeat is first made, its payload read from the shared state, then sent under the process's
  context. A request whose context has ended before it is sent fails at once.
\<close>

datatype beat = Idle | Made payload | Flying payload

record agent =
  ctxDone :: bool
  phase :: mainPhase
  a_draining :: bool
  a_server :: Server
  listening :: bool
  heartbeat :: beat
  delivered :: "payload list"
  exited :: bool

definition agent_init :: "Server \<Rightarrow> agent" where
  "agent_init s = \<lparr>ctxDone = False, phase = MWait, a_draining = False, a_server = s, listening = True,
     heartbeat = Idle, delivered = [], exited = False\<rparr>"

text \<open>
  The process ends when \<open>main\<close> returns after the shutdown, within its ten seconds or after, and at any
  moment before when the listener fails (\<open>log.Fatalf\<close> in its goroutine).
\<close>

inductive astep :: "env \<Rightarrow> agent \<Rightarrow> agent \<Rightarrow> bool" for env where
  signal: "\<not> exited s \<Longrightarrow> astep env s (s\<lparr>ctxDone := True\<rparr>)"
| storeDraining: "\<not> exited s \<Longrightarrow> phase s = MWait \<Longrightarrow> ctxDone s \<Longrightarrow>
    astep env s (s\<lparr>phase := MStored, a_draining := True\<rparr>)"
| serverDraining: "\<not> exited s \<Longrightarrow> phase s = MStored \<Longrightarrow>
    astep env s (s\<lparr>phase := MServer, a_server := SetDraining True (a_server s)\<rparr>)"
| shutdown: "\<not> exited s \<Longrightarrow> phase s = MServer \<Longrightarrow> astep env s (s\<lparr>phase := MShutdown, listening := False\<rparr>)"
| mainReturns: "\<not> exited s \<Longrightarrow> phase s = MShutdown \<Longrightarrow> astep env s (s\<lparr>exited := True\<rparr>)"
| listenFails: "\<not> exited s \<Longrightarrow> listening s \<Longrightarrow> astep env s (s\<lparr>exited := True\<rparr>)"
| beatMake: "\<not> exited s \<Longrightarrow> heartbeat s = Idle \<Longrightarrow>
    fst (makePayload env murl m (a_draining s) tr) = p \<Longrightarrow> astep env s (s\<lparr>heartbeat := Made p\<rparr>)"
| beatSend: "\<not> exited s \<Longrightarrow> heartbeat s = Made p \<Longrightarrow> \<not> ctxDone s \<Longrightarrow> astep env s (s\<lparr>heartbeat := Flying p\<rparr>)"
| beatFail: "\<not> exited s \<Longrightarrow> heartbeat s \<noteq> Idle \<Longrightarrow> astep env s (s\<lparr>heartbeat := Idle\<rparr>)"
| beatArrive: "\<not> exited s \<Longrightarrow> heartbeat s = Flying p \<Longrightarrow>
    astep env s (s\<lparr>heartbeat := Idle, delivered := p # delivered s\<rparr>)"

inductive agent_run :: "env \<Rightarrow> Server \<Rightarrow> agent \<Rightarrow> bool" for env srv where
  init: "agent_run env srv (agent_init srv)"
| step: "agent_run env srv s \<Longrightarrow> astep env s s' \<Longrightarrow> agent_run env srv s'"

lemmas agent_defs [ops] = main_start_def agent_init_def

section \<open>Invariant\<close>

lemma makePayload_draining [simp]: "P_Draining (fst (makePayload env murl m d tr)) = d"
  by (simp add: makePayload_def Let_def split: prod.splits)

text \<open>
  Draining is only ever true after the context has ended, each phase has done what the ones before it
  do, and what is under way or has arrived was made before.
\<close>

definition agent_inv :: "Server \<Rightarrow> agent \<Rightarrow> bool" where
  "agent_inv srv s \<longleftrightarrow>
     (phase s \<noteq> MWait \<longrightarrow> ctxDone s) \<and> (a_draining s \<longleftrightarrow> phase s \<noteq> MWait) \<and>
     (listening s \<longleftrightarrow> phase s \<noteq> MShutdown) \<and>
     a_server s = (if phase s \<in> {MServer, MShutdown} then SetDraining True srv else srv) \<and>
     (case heartbeat s of Idle \<Rightarrow> True | Made p \<Rightarrow> P_Draining p \<longrightarrow> ctxDone s | Flying p \<Rightarrow> \<not> P_Draining p) \<and>
     (\<forall>p\<in>set (delivered s). \<not> P_Draining p)"

lemma astep_inv: "astep env s s' \<Longrightarrow> agent_inv srv s \<Longrightarrow> agent_inv srv s'"
  by (induction rule: astep.induct) (auto simp: agent_inv_def SetDraining_def split: beat.splits)

lemma agent_run_inv: "agent_run env srv s \<Longrightarrow> \<not> s_draining srv \<Longrightarrow> agent_inv srv s"
proof (induction rule: agent_run.induct)
  case init
  show ?case by (simp add: agent_inv_def agent_init_def)
next
  case (step s s')
  then show ?case using astep_inv by blast
qed

text \<open>
  C36. The scheduler never receives a heartbeat that says the host is draining: the flag is set only
  after the signal has ended the context that every heartbeat is sent under.
\<close>

theorem heartbeat_never_draining:
  assumes "agent_run env srv s" "\<not> s_draining srv"
  shows "list_all (\<lambda>p. \<not> P_Draining p) (delivered s)"
  using agent_run_inv [OF assms] by (simp add: agent_inv_def list_all_iff)

text \<open>Shutting down goes one way: no step goes back to an earlier phase.\<close>

lemma astep_phase: "astep env s s' \<Longrightarrow> phase s \<le> phase s'"
  by (induction rule: astep.induct) (simp_all add: less_eq_mainPhase_def)

lemma asteps_phase: "(astep env)\<^sup>*\<^sup>* s s' \<Longrightarrow> phase s \<le> phase s'"
  by (induction rule: rtranclp_induct) (auto dest: astep_phase)

lemma asteps_run: "(astep env)\<^sup>*\<^sup>* s s' \<Longrightarrow> agent_run env srv s \<Longrightarrow> agent_run env srv s'"
  by (induction rule: rtranclp_induct) (auto intro: agent_run.step)

lemma serverPhase: "MServer \<le> p \<longleftrightarrow> p \<in> {MServer, MShutdown}"
  by (cases p) (simp_all add: less_eq_mainPhase_def)

text \<open>
  C35. Once \<open>main\<close> has told the server to drain, every \<open>POST /vms\<close> that still reaches a handler, then and at
  any later time until the process ends, is refused with 503 and changes nothing; before the signal
  none is refused for that reason and the listener is up.
\<close>

theorem draining_refuses_creates:
  assumes "agent_run env srv s" "(astep env)\<^sup>*\<^sup>* s s'" "\<not> s_draining srv"
  shows "(MServer \<le> phase s \<longrightarrow>
      handleCreateVM env B (a_server s') body m b tr = Some (writeError 503 ''host_draining'', m, b, tr)) \<and>
    (\<not> ctxDone s \<longrightarrow> \<not> s_draining (a_server s) \<and> listening s)"
proof -
  have "agent_inv srv s'" by (rule agent_run_inv [OF asteps_run [OF assms(2,1)] assms(3)])
  moreover have "MServer \<le> phase s \<Longrightarrow> MServer \<le> phase s'" using asteps_phase [OF assms(2)] by (rule order_trans [rotated])
  ultimately show ?thesis
    using agent_run_inv [OF assms(1,3)] assms(3)
    by (auto simp: agent_inv_def handleCreateVM_def SetDraining_def serverPhase)
qed

text \<open>A run to the start of the shutdown, with one heartbeat on the way.\<close>

definition firstBeat :: "env \<Rightarrow> Manager \<Rightarrow> payload" where
  "firstBeat env m = fst (makePayload env [] m False [])"

definition drained :: "env \<Rightarrow> Manager \<Rightarrow> Server \<Rightarrow> agent" where
  "drained env m srv = \<lparr>ctxDone = True, phase = MServer, a_draining = True, a_server = SetDraining True srv,
     listening = True, heartbeat = Idle, delivered = [firstBeat env m], exited = False\<rparr>"

lemma drained_run: "agent_run env srv (drained env m srv)"
proof -
  let ?s0 = "agent_init srv" and ?p = "firstBeat env m"
  have "agent_run env srv (?s0\<lparr>heartbeat := Made ?p\<rparr>)"
    by (rule agent_run.step [OF agent_run.init astep.beatMake [of _ env "[]" m "[]"]]) (simp_all add: agent_init_def firstBeat_def)
  then have "agent_run env srv (?s0\<lparr>heartbeat := Flying ?p\<rparr>)"
    using agent_run.step [OF _ astep.beatSend] by (fastforce simp: agent_init_def)
  then have "agent_run env srv (?s0\<lparr>delivered := [?p]\<rparr>)"
    using agent_run.step [OF _ astep.beatArrive] by (fastforce simp: agent_init_def)
  then have "agent_run env srv (?s0\<lparr>delivered := [?p], ctxDone := True\<rparr>)"
    using agent_run.step [OF _ astep.signal] by (fastforce simp: agent_init_def)
  then have "agent_run env srv (?s0\<lparr>delivered := [?p], ctxDone := True, phase := MStored, a_draining := True\<rparr>)"
    using agent_run.step [OF _ astep.storeDraining] by (fastforce simp: agent_init_def)
  then have "agent_run env srv
      (?s0\<lparr>delivered := [?p], ctxDone := True, phase := MServer, a_draining := True, a_server := SetDraining True srv\<rparr>)"
    using agent_run.step [OF _ astep.serverDraining] by (fastforce simp: agent_init_def)
  then show ?thesis by (simp add: drained_def agent_init_def)
qed

theorem heartbeat_never_draining_witness:
  "delivered (drained calm (emptyManager example_cfg) (NewServer ''secret'' [])) =
     [firstBeat calm (emptyManager example_cfg)] \<and> \<not> P_Draining (firstBeat calm (emptyManager example_cfg))"
  using heartbeat_never_draining [OF drained_run [of calm "NewServer ''secret'' []" "emptyManager example_cfg"]]
  by (simp add: drained_def NewServer_def)

theorem draining_refuses_creates_witness:
  "handleCreateVM calm (fcBackend calm example_cfg) (a_server (drained calm (emptyManager example_cfg) (NewServer ''secret'' []))) (Text [])
     (emptyManager example_cfg) NewFirecrackerBackend [] =
     Some (writeError 503 ''host_draining'', emptyManager example_cfg, NewFirecrackerBackend, [])"
  using draining_refuses_creates [OF drained_run [of calm "NewServer ''secret'' []" "emptyManager example_cfg"] rtranclp.rtrancl_refl, of "fcBackend calm example_cfg"
    "Text []" "emptyManager example_cfg" NewFirecrackerBackend "[]"]
  by (simp add: drained_def NewServer_def)

section \<open>Intervals\<close>

text \<open>
  An interval of zero or less, or one that wraps, loads as a configuration and then ends the
  process: \<open>main\<close> starts its parts, and the goroutine that makes the ticker panics.
\<close>

theorem bad_interval_panics:
  assumes "main_start getenv env tr = (Inr p, tr')"
  shows "(p_reaperInterval p \<le> 0 \<longleftrightarrow>
      reaper_Start env (fcBackend env (p_cfg p)) (p_reaperInterval p) sels (p_manager p) (p_backend p) tr' =
        Panic ''non-positive interval for NewTicker'') \<and>
    (p_heartbeatInterval p \<le> 0 \<longleftrightarrow>
      heartbeat_Start env (SchedulerURL (p_cfg p)) (AgentToken (p_cfg p)) (RegistryMetricsURL (p_cfg p))
        (p_heartbeatInterval p) (p_manager p) False beats tr' = Panic ''non-positive interval for NewTicker'')"
proof -
  have r: "reaperLoop env B ss m b t \<noteq> Panic x" for B :: "FcState Backend" and ss m b t x
    by (induction env B ss m b t rule: reaperLoop.induct) (auto split: prod.splits)
  have h: "heartbeatLoop env u k w ss t \<noteq> Panic x" for u k w ss t x
    by (induction env u k w ss t rule: heartbeatLoop.induct) auto
  show ?thesis by (simp add: reaper_Start_def heartbeat_Start_def NewTicker_def r h)
qed

theorem bad_interval_panics_witness:
  "\<exists>p tr'. main_start (example_environ ''REAPER_INTERVAL_SECONDS'' ''0'') calm [] = (Inr p, tr') \<and>
     reaper_Start calm (fcBackend calm (p_cfg p)) (p_reaperInterval p) [] (p_manager p) (p_backend p) tr' =
       Panic ''non-positive interval for NewTicker''"
proof -
  let ?e = "example_environ ''REAPER_INTERVAL_SECONDS'' ''0''"
  have zero: "Atoi ''0'' = Inr 0" by code_simp
  then obtain cfg where l: "Load ?e = Inr cfg"
    using Load_example [of "''REAPER_INTERVAL_SECONDS''" "''0''"] by (auto simp: required_names_def int_names_def)
  have "ReaperIntervalSeconds cfg = 0"
    using Load_fields(2) [OF l] zero by (simp add: intEnv_def example_environ_def)
  moreover obtain m tr' where n: "New calm cfg [] = (Inr m, tr')"
    by (simp add: New_def reconcile_def readDir_def perform_def calm_def Let_def)
  ultimately obtain p where p: "main_start ?e calm [] = (Inr p, tr')" "p_reaperInterval p \<le> 0"
    using l by (simp add: main_start_def)
  from bad_interval_panics [OF p(1), of "[]" "[]"] p show ?thesis by auto
qed

end
