(* ===== verification/Service.thy ===== *)
theory Service
  imports Restarts Api_Props Agent
begin

text \<open>
  The whole program at work: \<open>main\<close> starts the parts, the HTTP server hands requests to the manager, the
  reaper and the heartbeat have their rounds, the process drains, ends and is started again, in any order,
  each activity running to its end before the next (a proxied connection counts as ended once its pipe stands; it changes nothing after that).
  Every such history is a life of the agent in the sense of \<open>Restarts\<close>; what the steps of \<open>life_run\<close> ask for (fresh ids, times that can be
  written, a boot that leaves nothing behind) is derived here from the clock of the history and from the calls that were made in it.
\<close>

section \<open>Running the program\<close>

text \<open>
  The state is the log of the requests, the parts of the process (none while it is not running) and
  the trace. Requests may say anything; those with the agent's token ask for less than \<open>2^62\<close> CPUs and megabytes.
\<close>

definition moderate :: "Server \<Rightarrow> request \<Rightarrow> bool" where
  "moderate s r \<longleftrightarrow> (Authorization r = ''Bearer '' @ s_token s \<longrightarrow>
     (case decodeCreate (ReqBody r) of None \<Rightarrow> True | Some q \<Rightarrow> R_Vcpu q < 2 ^ 62 \<and> R_RamMb q < 2 ^ 62))"

inductive serve_run :: "env \<Rightarrow> environ \<Rightarrow> request list \<Rightarrow> parts option \<Rightarrow> trace \<Rightarrow> bool" for env getenv where
  installed: "extends neutral [] tr \<Longrightarrow> serve_run env getenv [] None tr"
| elsewhere: "serve_run env getenv rs x tr \<Longrightarrow> extends neutral tr tr' \<Longrightarrow> serve_run env getenv rs x tr'"
| launched: "serve_run env getenv rs x tr \<Longrightarrow> main_start getenv env tr = (Inr p, tr') \<Longrightarrow>
    serve_run env getenv rs (Some p) tr'"
| notLaunched: "serve_run env getenv rs x tr \<Longrightarrow> main_start getenv env tr = (Inl e, tr') \<Longrightarrow>
    serve_run env getenv rs None tr'"
| ended: "serve_run env getenv rs (Some p) tr \<Longrightarrow> serve_run env getenv rs None tr"
| request: "serve_run env getenv rs (Some p) tr \<Longrightarrow> moderate (p_server p) r \<Longrightarrow>
    ServeHTTP env (fcBackend env (p_cfg p)) (p_server p) r (p_manager p) (p_backend p) tr =
      Some (resp, m', st', tr') \<Longrightarrow>
    serve_run env getenv (r # rs) (Some (p\<lparr>p_manager := m', p_backend := st'\<rparr>)) tr'"
| tick: "serve_run env getenv rs (Some p) tr \<Longrightarrow>
    ReapExpired env (fcBackend env (p_cfg p)) (p_manager p) (p_backend p) tr = (ids, m', st', tr') \<Longrightarrow>
    serve_run env getenv rs (Some (p\<lparr>p_manager := m', p_backend := st'\<rparr>)) tr'"
| beat: "serve_run env getenv rs (Some p) tr \<Longrightarrow>
    send env (SchedulerURL (p_cfg p)) (AgentToken (p_cfg p)) (RegistryMetricsURL (p_cfg p)) (p_manager p)
      draining tr = tr' \<Longrightarrow> serve_run env getenv rs (Some p) tr'"
| drain: "serve_run env getenv rs (Some p) tr \<Longrightarrow>
    serve_run env getenv rs (Some (p\<lparr>p_server := SetDraining True (p_server p)\<rparr>)) tr"

section \<open>What a request does\<close>

lemma Scrape_neutral: "extends neutral tr (snd (Scrape env url tr))"
  by (auto simp: Scrape_def httpDo_def Let_def extends_def split: sum.splits)

lemma send_neutral: "extends neutral tr (send env url token murl m dr tr)"
proof -
  have "extends neutral tr (snd (makePayload env murl m dr tr))"
    using Scrape_neutral [of tr env murl]
    by (auto simp: makePayload_def Let_def simp del: neutral_def split: prod.splits)
  then show ?thesis
    by (auto simp: send_def httpDo_def heartbeatCall_def Let_def simp del: neutral_def split: prod.splits
      intro: extends_snoc) (simp add: extends_snoc)
qed

lemma handleHealth_neutral: "extends neutral tr (snd (handleHealth env s m tr))"
  using Scrape_neutral [of tr env "s_registryMetricsURL s"]
  by (auto simp: handleHealth_def Let_def simp del: neutral_def split: prod.splits)

lemma handleProxyPort_neutral: "extends neutral tr (snd (handleProxyPort env vmid port m tr))"
  by (auto simp: handleProxyPort_def proxyPipe_def perform_def performIgnore_eq Let_def extends_def
    split: sum.splits option.splits)

definition asksFor :: "Config \<Rightarrow> request \<Rightarrow> createVMRequest \<Rightarrow> bool" where
  "asksFor c r q \<longleftrightarrow> Authorization r = ''Bearer '' @ AgentToken c \<and>
     (\<exists>v. muxMatch routes (Method r) (EscapedPath r) = Handler CreateVM v) \<and> validCreate (ReqBody r) = Some q"

lemma ServeHTTP_cases:
  assumes "ServeHTTP env B s r m b tr = Some (resp, m', b', tr')"
  obtains (quiet) "m' = m" "b' = b" "extends neutral tr tr'"
  | (creates) q x v where "Authorization r = ''Bearer '' @ s_token s" "muxMatch routes (Method r) (EscapedPath r) = Handler CreateVM v"
      "validCreate (ReqBody r) = Some q"
      "Create env B (R_TeamID q) (R_TTLMinutes q) (R_Vcpu q) (R_RamMb q) m b tr = Some (x, m', b', tr')"
  | (deletes) k e where "Authorization r = ''Bearer '' @ s_token s" "Destroy env B k m b tr = (e, m', b', tr')"
proof (cases "Authorization r = ''Bearer '' @ s_token s")
  case False
  with assms ConstantTimeCompare_iff [of "Authorization r" "''Bearer '' @ s_token s"] quiet show ?thesis
    by (simp add: ServeHTTP_def)
next
  case auth: True
  with assms have run: "muxServe env B s r m b tr = Some (resp, m', b', tr')"
    using ConstantTimeCompare_iff [of "Authorization r" "''Bearer '' @ s_token s"] by (simp add: ServeHTTP_def)
  show ?thesis
  proof (cases "muxMatch routes (Method r) (EscapedPath r)")
    case (Handler h v)
    show ?thesis
    proof (cases h)
      case CreateVM
      with run Handler have "handleCreateVM env B s (ReqBody r) m b tr = Some (resp, m', b', tr')"
        by (simp add: muxServe_def)
      then show ?thesis
        by (cases rule: handleCreateVM_cases) (use quiet creates [OF auth] Handler CreateVM in auto)
    next
      case DeleteVM
      with run Handler have "handleDeleteVM env B (PathValue ''id'' v) m b tr = (resp, m', b', tr')"
        by (simp add: muxServe_def)
      then obtain e where "Destroy env B (PathValue ''id'' v) m b tr = (e, m', b', tr')"
        by (auto simp: handleDeleteVM_def split: prod.splits option.splits if_splits)
      with deletes [OF auth] show ?thesis .
    next
      case ListVMs
      with run Handler quiet show ?thesis by (simp add: muxServe_def)
    next
      case ProxyPort
      with run Handler quiet handleProxyPort_neutral [of tr env "PathValue ''id'' v" "PathValue ''port'' v" m]
      show ?thesis by (auto simp: muxServe_def Let_def simp del: neutral_def split: prod.splits)
    next
      case HealthH
      with run Handler quiet handleHealth_neutral [of tr env s m]
      show ?thesis by (auto simp: muxServe_def Let_def simp del: neutral_def split: prod.splits)
    qed
  qed (use run quiet in \<open>simp_all add: muxServe_def\<close>)
qed

section \<open>Time only grows\<close>

lemma extends_prefix: "extends P tr tr' \<Longrightarrow> prefix tr tr'"
  by (auto simp: extends_def)

lemma Create_clock:
  assumes "Create env (fcBackend env c) teamID ttl vcpu ramMb m st tr = Some (r, m', st', tr')"
  obtains (refused) "tr' = tr" "m' = m" "st' = st" | (begun) "prefix (tr @ [(TimeNow, None)]) tr'"
proof (cases "0 < vcpu \<and> 0 < ramMb \<and> admitted env m tr vcpu ramMb \<and> snd (freeSlot env m)")
  case False
  with assms refused show ?thesis by (auto simp: Create_def createLocked_cases Let_def split: if_splits)
next
  case True
  let ?t = "tr @ [(TimeNow, None), (TimeNow, None)]"
  let ?root = "Join [VMStateDir (m_cfg m), newVMID (e_now env tr), ''rootfs.ext4'']"
  obtain pe tr1 where root: "prepareRootfs env (GoldenImagePath (m_cfg m)) ?root ?t = (pe, tr1)" by (metis surj_pair)
  have "prefix ?t tr1" using extends_prefix [OF prepareRootfs_neutral [of ?t env]] root by (metis snd_conv)
  moreover have "prefix tr1 tr'"
  proof (cases pe)
    case (Some e)
    with assms True root show ?thesis by (auto simp: Create_def createLocked_cases Let_def effTTL_def)
  next
    case None
    with assms True root obtain err vm0 nc vm' tr2 where boot: "fcBoot env c vm0 nc ?root st tr1 = Some (err, vm', st', tr2)"
      and "\<exists>y m1. tr' = snd (persist env m1 vm' tr2) \<or> tr' = tr2 @ [y]"
      by (fastforce simp: Create_def createLocked_cases Let_def effTTL_def bind_eq_Some_conv fcBackend_def
        removeVMDir_def perform_def split: option.splits)
    then have "prefix tr2 tr'" using extends_prefix [OF persist_off] by auto
    with extends_prefix [OF fcBoot_grows [OF boot]] show ?thesis by (rule prefix_order.trans)
  qed
  moreover have "prefix (tr @ [(TimeNow, None)]) ?t" by simp
  ultimately show ?thesis by (meson begun prefix_order.trans)
qed

lemma Create_prefix:
  assumes "Create env (fcBackend env c) teamID ttl vcpu ramMb m st tr = Some (r, m', st', tr')"
  shows "prefix tr tr'"
  using assms by (cases rule: Create_clock) (auto dest: append_prefixD)

lemma Destroy_prefix:
  assumes "Destroy env (fcBackend env c) k m st tr = (e, m', st', tr')"
  shows "prefix tr tr'"
proof (cases "mget (vms m) k")
  case None
  with assms show ?thesis by (simp add: Destroy_def)
next
  case (Some vm)
  obtain err st1 tr1 where stop: "fcStop env vm st tr = (err, st1, tr1)" by (metis prod_cases3)
  have 1: "prefix tr tr1" by (rule extends_prefix [OF fcStop_grows [OF stop]])
  have "prefix tr1 (destroyCleanup env (m_cfg m) vm tr1)"
    using extends_prefix [OF teardown_grows [of tr1 env "deriveNetConfig (m_cfg m) (Slot vm)" "m_cfg m"]]
    by (simp add: destroyCleanup_def Let_def removeCgroup_def removeVMDir_def perform_def prefix_prefix del: NetConfig_simps)
  with 1 assms Some stop show ?thesis
    by (auto simp: Destroy_def fcBackend_def split: option.splits intro: prefix_order.trans)
qed

lemma reapLoop_prefix: "reapLoop env (fcBackend env c) ids m st tr = (r, m', st', tr') \<Longrightarrow> prefix tr tr'"
proof (induction ids arbitrary: m st tr r)
  case (Cons k ids)
  obtain e m1 st1 tr1 where d: "Destroy env (fcBackend env c) k m st tr = (e, m1, st1, tr1)"
    by (metis prod_cases4)
  from Cons d Destroy_prefix [OF d] show ?case
    by (auto split: option.splits prod.splits intro: prefix_order.trans)
qed simp

lemma ReapExpired_prefix:
  "ReapExpired env (fcBackend env c) m st tr = (ids, m', st', tr') \<Longrightarrow> prefix tr tr'"
  using reapLoop_prefix by (fastforce simp: ReapExpired_def timeNow_def prefix_def)

text \<open>
  Up to a moment of a history, the clock did not step back and running a program took some time; and it was not before 1970 when the agent was
  installed. \<open>time.Now\<close> is the wall clock, which may be set back, so this is a condition on the history and not on the host.
\<close>

definition steady :: "env \<Rightarrow> trace \<Rightarrow> bool" where
  "steady env tr \<longleftrightarrow> 0 \<le> e_now env [] \<and> (\<forall>t x. prefix (t @ [x]) tr \<longrightarrow> e_now env t \<le> e_now env (t @ [x])) \<and>
     (\<forall>t p a e. prefix (t @ [(Exec p a, e)]) tr \<longrightarrow> e_now env t < e_now env (t @ [(Exec p a, e)]))"

lemma steady_prefix: "steady env tr' \<Longrightarrow> prefix tr tr' \<Longrightarrow> steady env tr"
  unfolding steady_def by (meson prefix_order.trans)

lemma clock_prefix: "steady env tr' \<Longrightarrow> prefix tr tr' \<Longrightarrow> e_now env tr \<le> e_now env tr'"
proof -
  have "steady env (tr @ ev) \<Longrightarrow> e_now env tr \<le> e_now env (tr @ ev)" for ev
  proof (induction ev rule: rev_induct)
    case (snoc x xs)
    have "e_now env (tr @ xs) \<le> e_now env ((tr @ xs) @ [x])"
      using snoc.prems unfolding steady_def append_assoc [symmetric] by blast
    with snoc.IH steady_prefix [OF snoc.prems] show ?case by simp
  qed simp
  then show "steady env tr' \<Longrightarrow> prefix tr tr' \<Longrightarrow> e_now env tr \<le> e_now env tr'" by (auto simp: prefix_def)
qed

lemma clock_nonneg: "steady env tr \<Longrightarrow> 0 \<le> e_now env tr"
  using clock_prefix [of env tr "[]"] by (simp add: steady_def)

text \<open>A successful \<open>Create\<close> has copied the rootfs, so that the clock has moved on.\<close>

lemma Create_takes_time:
  assumes "steady env tr'"
    and "Create env (fcBackend env c) teamID ttl vcpu ramMb m st tr = Some (Inr vm, m', st', tr')"
  shows "e_now env tr < e_now env tr'"
proof -
  let ?t = "tr @ [(TimeNow, None), (TimeNow, None)]"
  let ?root = "Join [VMStateDir (m_cfg m), newVMID (e_now env tr), ''rootfs.ext4'']"
  obtain tr1 tr2 vm0 nc root m1 where root: "prepareRootfs env (GoldenImagePath (m_cfg m)) ?root ?t = (None, tr1)"
    and boot: "fcBoot env c vm0 nc root st tr1 = Some (None, vm, st', tr2)" and p: "tr' = snd (persist env m1 vm tr2)"
    using assms(2)
    by (auto simp: Create_def createLocked_cases Let_def fcBackend_def bind_eq_Some_conv
      split: if_splits prod.splits option.splits)
  have "tr1 = (?t @ [(MkdirAll (Dir ?root), None)]) @
      [(Exec ''cp'' [''--sparse=always'', GoldenImagePath (m_cfg m), ?root], None)]"
    using root by (auto simp: prepareRootfs_def perform_def Let_def split: option.splits)
  then obtain t1 a e where t1: "prefix tr t1" "tr1 = t1 @ [(Exec ''cp'' a, e)]"
    by (metis append_assoc prefixI)
  have 2: "prefix tr1 tr2" by (rule extends_prefix [OF fcBoot_grows [OF boot]])
  have "prefix tr2 tr'" unfolding p by (rule extends_prefix [OF persist_off])
  with 2 have 1: "prefix tr1 tr'" by (rule prefix_order.trans)
  note s1 = steady_prefix [OF assms(1) 1]
  have "e_now env tr \<le> e_now env t1" by (rule clock_prefix [OF steady_prefix [OF s1] t1(1)]) (simp add: t1(2))
  also have "e_now env t1 < e_now env tr1" using s1 unfolding steady_def t1(2) by blast
  also have "e_now env tr1 \<le> e_now env tr'" by (rule clock_prefix [OF assms(1) 1])
  finally show ?thesis .
qed

text \<open>Before the year 2262 the clock fits in an \<open>int64\<close> of nanoseconds, and every time of it can be written.\<close>

lemma early_year:
  assumes "0 \<le> t" "t < 2 ^ 63" "\<bar>z\<bar> < 1440"
  shows "yearOk z t"
proof -
  have "0 \<le> t div 1000000000" "t div 1000000000 \<le> 9223372036" using assms(1,2) by simp_all
  with assms(3) have "- 86400 \<le> t div 1000000000 + 60 * z" "t div 1000000000 + 60 * z \<le> 9223458436" by simp_all
  then have "-1 \<le> (t div 1000000000 + 60 * z) div 86400" "(t div 1000000000 + 60 * z) div 86400 \<le> 106753"
    by linarith+
  then show ?thesis by (simp add: yearOk_def localDay_def epochDay_def daysBeforeYear_def)
qed

lemma newVMID_inj: "0 \<le> s \<Longrightarrow> s < 2 ^ 63 \<Longrightarrow> 0 \<le> t \<Longrightarrow> t < 2 ^ 63 \<Longrightarrow> newVMID s = newVMID t \<longleftrightarrow> s = t"
  by (simp add: newVMID_def Itoa_inj i64_nonneg_less)

definition ids_old :: "env \<Rightarrow> Manager \<Rightarrow> trace \<Rightarrow> bool" where
  "ids_old env m tr \<longleftrightarrow>
     (\<forall>k vm. mget (vms m) k = Some vm \<longrightarrow> (\<exists>t. k = newVMID t \<and> 0 \<le> t \<and> t < e_now env tr))"

lemma ids_old_fresh:
  assumes "ids_old env m tr" "steady env tr" "e_now env tr < 2 ^ 63"
  shows "mget (vms m) (newVMID (e_now env tr)) = None"
proof (rule ccontr)
  assume "mget (vms m) (newVMID (e_now env tr)) \<noteq> None"
  then obtain t where "newVMID (e_now env tr) = newVMID t" "0 \<le> t" "t < e_now env tr"
    using assms(1) unfolding ids_old_def by blast
  with newVMID_inj [of "e_now env tr" t] clock_nonneg [OF assms(2)] assms(3) show False by simp
qed

lemma ids_old_sub:
  assumes "ids_old env m tr" "steady env tr'" "prefix tr tr'" "mget (vms m') \<subseteq>\<^sub>m mget (vms m)"
  shows "ids_old env m' tr'"
proof -
  have "e_now env tr \<le> e_now env tr'" by (rule clock_prefix [OF assms(2,3)])
  moreover have "mget (vms m') k = Some vm \<Longrightarrow> mget (vms m) k = Some vm" for k vm
    using assms(4) by (force simp: map_le_def dom_def)
  ultimately show ?thesis using assms(1) unfolding ids_old_def by (meson less_le_trans)
qed

lemma ids_old_Create:
  assumes "ids_old env m tr" "steady env tr'"
    and "Create env (fcBackend env c) teamID ttl vcpu ramMb m st tr = Some (Inr vm, m', st', tr')"
  shows "ids_old env m' tr'"
proof -
  note ok = fc.Create_success [OF assms(3)]
  have "ID vm = newVMID (e_now env tr)" using ok(5) by (auto simp: reserved_def)
  moreover have "ids_old env m tr'"
    by (rule ids_old_sub [OF assms(1,2) Create_prefix [OF assms(3)]]) simp
  ultimately show ?thesis
    using Create_takes_time [OF assms(2,3)] clock_nonneg [OF steady_prefix [OF assms(2) Create_prefix [OF assms(3)]]] ok(6)
    by (auto simp: ids_old_def withVM_def mget_mput)
qed

section \<open>Tables that only shrink\<close>

lemma Destroy_sub:
  assumes "Destroy env (fcBackend env c) k m st tr = (e, m', st', tr')"
  shows "mget (vms m') \<subseteq>\<^sub>m mget (vms m)"
proof (cases e)
  case None
  with assms fc.Destroy_success obtain vm where "m' = destroyLocked k vm m" by blast
  then show ?thesis by (auto simp: destroyLocked_def mget_mdel map_le_def split: if_splits)
next
  case (Some x)
  with fc.Destroy_error [OF assms [unfolded Some]] show ?thesis by simp
qed

lemma reapLoop_sub:
  "reapLoop env (fcBackend env c) ids m st tr = (r, m', st', tr') \<Longrightarrow> mget (vms m') \<subseteq>\<^sub>m mget (vms m)"
proof (induction ids arbitrary: m st tr r)
  case (Cons k ids)
  obtain e m1 st1 tr1 where d: "Destroy env (fcBackend env c) k m st tr = (e, m1, st1, tr1)"
    by (metis prod_cases4)
  obtain r1 where "reapLoop env (fcBackend env c) ids m1 st1 tr1 = (r1, m', st', tr')"
    using Cons.prems by (auto simp: d split: option.splits prod.splits)
  from map_le_trans [OF Cons.IH [OF this] Destroy_sub [OF d]] show ?case .
qed simp

lemma ReapExpired_sub:
  "ReapExpired env (fcBackend env c) m st tr = (ids, m', st', tr') \<Longrightarrow> mget (vms m') \<subseteq>\<^sub>m mget (vms m)"
  using reapLoop_sub by (fastforce simp: ReapExpired_def timeNow_def)

section \<open>Boots that leave nothing behind\<close>

text \<open>
  The calls without which \<open>Boot\<close> leaves rules behind: opening the pty and the console log, and adding
  a rule. A trace is spared when none of them failed in it.
\<close>

fun vital :: "call \<Rightarrow> bool" where
  "vital PtyOpen = True"
| "vital (OpenFile _) = True"
| "vital (Exec p a) = (p = ''sysctl'' \<or> p = ''iptables'' \<and> fst (iptSplit a) = ''-A'')"
| "vital _ = False"

definition spared :: "trace \<Rightarrow> bool" where
  "spared tr \<longleftrightarrow> list_all (\<lambda>(c, e). vital c \<longrightarrow> e = None) tr"

lemma spared_prefix: "spared tr' \<Longrightarrow> prefix tr tr' \<Longrightarrow> spared tr"
  by (auto simp: spared_def prefix_def)

lemma setupFirewall_vital:
  assumes "setupFirewall env c nc tr = (Some e, tr')"
  shows "\<not> spared tr'"
proof (cases "e_err env tr (Exec ''sysctl'' [''-w'', ''net.ipv4.ip_forward=1''])")
  case (Some x)
  with assms show ?thesis by (auto simp: setupFirewall_def runCmd_def perform_def Let_def spared_def)
next
  case None
  let ?t = "tr @ [(Exec ''sysctl'' [''-w'', ''net.ipv4.ip_forward=1''], None)]"
  from None assms have "runSteps env (setupFirewallSteps c nc) ?t = (Some e, tr')"
    by (auto simp: setupFirewall_def runCmd_def perform_def Let_def)
  from runSteps_err [OF this] obtain k x where k: "k < length (setupFirewallSteps c nc)"
    and "tr' = ?t @ map (\<lambda>a. (iptCall a, None)) (take k (setupFirewallSteps c nc)) @
      [(iptCall (setupFirewallSteps c nc ! k), Some x)]" by blast
  then have tr': "(iptCall (setupFirewallSteps c nc ! k), Some x) \<in> set tr'" by simp
  have "fst (iptSplit (setupFirewallSteps c nc ! k)) = ''-A''"
    using setup_steps_append k by (simp add: list_all_length)
  with tr' show ?thesis by (force simp: spared_def list_all_iff)
qed

lemma Create_boot_error:
  assumes "Create env (fcBackend env c) teamID ttl vcpu ramMb m st tr = Some (Inl (Wrap ''boot vm'' x), m', st', tr')"
  obtains tr1 vm nc root vm' tr2 where "fcBoot env c vm nc root st tr1 = Some (Some x, vm', st', tr2)" "prefix tr2 tr'"
  using assms
  by (auto simp: Create_def createLocked_cases Let_def fcBackend_def bind_eq_Some_conv removeVMDir_def perform_def
    split: if_splits prod.splits option.splits)

lemma fcBoot_leaky:
  assumes "fcBoot env c vm nc root st tr = Some (Some x, vm', st', tr')" "stage x \<in> leakyStages" "disk_ok env d"
  shows "\<not> spared tr'"
  using assms(1)
proof (cases rule: fcBoot_cases)
  case network
  then obtain tr1 tr2 e where fw: "setupFirewall env c nc tr1 = (Some e, tr2)" "tr' = snd (teardownTapDevice env nc tr2)"
    using assms(2) by (auto simp: bootNetwork_def leakyStages_def split: prod.splits option.splits)
  with setupFirewall_vital [OF fw(1)] spared_prefix extends_prefix [OF teardownTapDevice_grows] show ?thesis by metis
next
  case (console tr1 e)
  have "e_err env tr1 (MkdirAll p) = None" for p using assms(3) by (simp add: disk_ok_def)
  with console(2) show ?thesis
    by (auto simp: bootConsole_def perform_def performIgnore_eq Let_def spared_def split: option.splits)
next
  case machine
  then show ?thesis using assms(2)
    by (auto simp: bootMachine_def Let_def leakyStages_def split: prod.splits option.splits)
next
  case guest
  with assms(2) show ?thesis by (simp add: leakyStages_def)
qed simp

lemma spared_not_leaky:
  assumes "Create env (fcBackend env c) teamID ttl vcpu ramMb m st tr = Some (r, m', st', tr')" "spared tr'" "disk_ok env d"
  shows "\<not> leaky r"
proof
  assume "leaky r"
  then obtain x where r: "r = Inl (Wrap ''boot vm'' x)" and leak: "stage x \<in> leakyStages" by (auto simp: leaky_def)
  obtain tr1 vm nc root vm' tr2 where "fcBoot env c vm nc root st tr1 = Some (Some x, vm', st', tr2)" "prefix tr2 tr'"
    by (rule Create_boot_error [OF assms(1) [unfolded r]])
  with fcBoot_leaky [OF _ leak assms(3)] spared_prefix [OF assms(2)] show False by blast
qed

section \<open>Every history is a life\<close>

definition requested :: "Config \<Rightarrow> request list \<Rightarrow> Manager \<Rightarrow> bool" where
  "requested c rs m \<longleftrightarrow> (\<forall>k vm. Get k m = Some vm \<longrightarrow> (\<exists>r\<in>set rs. \<exists>q. asksFor c r q \<and>
     TeamID vm = R_TeamID q \<and> Vcpu vm = R_Vcpu q \<and> RamMb vm = R_RamMb q))"

definition lives :: "env \<Rightarrow> Config \<Rightarrow> request list \<Rightarrow> Manager \<Rightarrow> FcState \<Rightarrow> trace \<Rightarrow> bool" where
  "lives env c rs m st tr \<longleftrightarrow> life_run env c m st tr \<and> ids_old env m tr \<and> requested c rs m"

definition holds_parts :: "Config \<Rightarrow> parts option \<Rightarrow> Manager \<Rightarrow> FcState \<Rightarrow> bool" where
  "holds_parts c x m st \<longleftrightarrow> (\<forall>p. x = Some p \<longrightarrow>
     p_cfg p = c \<and> p_manager p = m \<and> p_backend p = st \<and> s_token (p_server p) = AgentToken c)"

lemma requested_sub: "requested c rs m \<Longrightarrow> mget (vms m') \<subseteq>\<^sub>m mget (vms m) \<Longrightarrow> requested c rs m'"
  unfolding requested_def Get_def map_le_def by (metis domI)

lemma requested_more: "requested c rs m \<Longrightarrow> requested c (r # rs) m"
  by (auto simp: requested_def)

lemma lives_more: "lives env c rs m st tr \<Longrightarrow> lives env c (r # rs) m st tr"
  by (simp add: lives_def requested_more)

lemma lives_neutral:
  assumes "steady env tr'" "lives env c rs m st tr" "extends neutral tr tr'"
  shows "lives env c rs m st tr'"
  using assms life_run.other ids_old_sub [OF _ assms(1) extends_prefix [OF assms(3)]]
  unfolding lives_def by (metis map_le_refl)

lemma lives_Destroy:
  assumes "steady env tr'" "lives env c rs m st tr" "Destroy env (fcBackend env c) k m st tr = (e, m', st', tr')"
  shows "lives env c rs m' st' tr'"
  using assms(2) life_run.destroy [OF _ assms(3)] ids_old_sub [OF _ assms(1) Destroy_prefix [OF assms(3)] Destroy_sub [OF assms(3)]]
    requested_sub [OF _ Destroy_sub [OF assms(3)]] by (simp add: lives_def)

lemma lives_ReapExpired:
  assumes "steady env tr'" "lives env c rs m st tr" "ReapExpired env (fcBackend env c) m st tr = (ids, m', st', tr')"
  shows "lives env c rs m' st' tr'"
  using assms(2) life_run.reap [OF _ assms(3)] requested_sub [OF _ ReapExpired_sub [OF assms(3)]]
    ids_old_sub [OF _ assms(1) ReapExpired_prefix [OF assms(3)] ReapExpired_sub [OF assms(3)]] by (simp add: lives_def)

lemma lives_Create:
  assumes "agent_ok env c R L T" "steady env tr'" "lives env c rs m st tr"
    and "Create env (fcBackend env c) (R_TeamID q) (R_TTLMinutes q) (R_Vcpu q) (R_RamMb q) m st tr = Some (x, m', st', tr')"
    and "asksFor c r q" "R_Vcpu q < 2 ^ 62" "R_RamMb q < 2 ^ 62" "e_now env tr' < 2 ^ 63" "spared tr'"
  shows "lives env c (r # rs) m' st' tr'"
proof -
  have inv: "life_run env c m st tr" "ids_old env m tr" "requested c rs m" using assms(3) by (simp_all add: lives_def)
  have ok: "disk_ok env (VMStateDir c)" "\<bar>e_zone env\<bar> < 1440" using assms(1) by (simp_all add: agent_ok_def)
  have now: "e_now env tr < 2 ^ 63" using clock_prefix [OF assms(2) Create_prefix [OF assms(4)]] assms(8) by simp
  have fresh: "mget (vms m) (newVMID (e_now env tr)) = None" 
    by (rule ids_old_fresh [OF inv(2) steady_prefix [OF assms(2) Create_prefix [OF assms(4)]] now])
  from assms(4) show ?thesis
  proof (cases rule: Create_clock)
    case refused
    with lives_more [OF assms(3)] show ?thesis by simp
  next
    case begun
    from clock_prefix [OF assms(2) this] assms(8) clock_nonneg [OF steady_prefix [OF assms(2) this]] ok(2)
    have "yearOk (e_zone env) (e_now env (tr @ [(TimeNow, None)]))" by (intro early_year) simp_all
    from life_run.create [OF inv(1) assms(6,7) fresh this spared_not_leaky [OF assms(4,9) ok(1)] assms(4)]
    have life: "life_run env c m' st' tr'" .
    show ?thesis
    proof (cases x)
      case (Inl e)
      have "m' = m" by (rule fc.Create_error [OF assms(4) [unfolded Inl]])
      with life inv ids_old_sub [OF inv(2) assms(2) Create_prefix [OF assms(4)]] show ?thesis
        by (simp add: lives_def requested_more)
    next
      case (Inr vm)
      note run = assms(4) [unfolded Inr]
      have "TeamID vm = R_TeamID q" "Vcpu vm = R_Vcpu q" "RamMb vm = R_RamMb q"
        using fc.Create_success(5) [OF run] by (auto simp: reserved_def)
      with assms(5) inv(3) fc.Create_success(6) [OF run] have "requested c (r # rs) m'"
        by (auto simp: requested_def Get_def withVM_def mget_mput)
      with life ids_old_Create [OF inv(2) assms(2) run] show ?thesis by (simp add: lives_def)
    qed
  qed
qed

lemma lives_request:
  assumes "agent_ok env c R L T" "steady env tr'" "lives env c rs m st tr" "s_token s = AgentToken c" "moderate s r"
    and "ServeHTTP env (fcBackend env c) s r m st tr = Some (resp, m', st', tr')" "e_now env tr' < 2 ^ 63" "spared tr'"
  shows "lives env c (r # rs) m' st' tr'"
  using assms(6)
proof (cases rule: ServeHTTP_cases)
  case quiet
  with lives_more [OF lives_neutral [OF assms(2,3)]] show ?thesis by blast
next
  case (creates q x v)
  then have ask: "asksFor c r q" using assms(4) by (auto simp: asksFor_def)
  have "decodeCreate (ReqBody r) = Some q"
    using creates(3) by (auto simp: validCreate_def split: option.splits if_splits)
  then have "R_Vcpu q < 2 ^ 62" "R_RamMb q < 2 ^ 62" using assms(5) creates(1) by (simp_all add: moderate_def)
  from lives_Create [OF assms(1-3) creates(4) ask this assms(7,8)] show ?thesis .
next
  case (deletes k e)
  with lives_more [OF lives_Destroy [OF assms(2,3)]] show ?thesis by blast
qed

lemma lives_New:
  assumes "agent_ok env c R L T" "lives env c rs m st tr"
  shows "\<exists>m' tr'. New env c tr = (Inr m', tr') \<and> (steady env tr' \<longrightarrow> lives env c rs m' NewFirecrackerBackend tr')"
proof -
  have inv: "life_run env c m st tr" "ids_old env m tr" "requested c rs m" using assms(2) by (simp_all add: lives_def)
  obtain m' tr' where new: "New env c tr = (Inr m', tr')" and same: "mget (vms m') = mget (vms m)"
    using life_inv_New [OF assms(1) life_run_inv [OF assms(1) inv(1)]] by blast
  have "steady env tr' \<longrightarrow> lives env c rs m' NewFirecrackerBackend tr'"
    using life_run.restart [OF inv(1) new] ids_old_sub [OF inv(2) _ extends_prefix [OF New_shape(1) [OF new]]]
      requested_sub [OF inv(3)] same by (simp add: lives_def)
  with new show ?thesis by blast
qed

text \<open>The clock and the calls of a history, up to some moment of it: the clock was steady and before 2262, and no vital call failed.\<close>

definition within :: "env \<Rightarrow> trace \<Rightarrow> bool" where
  "within env tr \<longleftrightarrow> steady env tr \<and> e_now env tr < 2 ^ 63 \<and> spared tr"

lemma within_prefix: "within env tr' \<Longrightarrow> prefix tr tr' \<Longrightarrow> within env tr"
  using clock_prefix spared_prefix steady_prefix by (fastforce simp: within_def)

lemma New_prefix:
  assumes "New env c tr = (r, tr')"
  shows "prefix tr tr'"
proof (cases r)
  case (Inl e)
  with assms show ?thesis
    by (auto simp: New_def reconcile_def readDir_def perform_def Let_def split: sum.splits oserr.splits option.splits prod.splits)
next
  case (Inr m)
  with assms show ?thesis using extends_prefix [OF New_shape(1)] by simp
qed

lemma ServeHTTP_prefix:
  assumes "ServeHTTP env (fcBackend env c) s r m st tr = Some (resp, m', st', tr')"
  shows "prefix tr tr'"
  using assms by (cases rule: ServeHTTP_cases) (auto intro: extends_prefix Create_prefix Destroy_prefix)

lemma main_start_lives:
  assumes "agent_ok env c R L T" "Load getenv = Inr c" "steady env tr'" "lives env c rs m st tr"
    and "main_start getenv env tr = (r, tr')"
  obtains p where "r = Inr p" "holds_parts c (Some p) (p_manager p) (p_backend p)"
    "lives env c rs (p_manager p) (p_backend p) tr'"
proof -
  obtain m' t where new: "New env c tr = (Inr m', t)" "steady env t \<longrightarrow> lives env c rs m' NewFirecrackerBackend t"
    using lives_New [OF assms(1,4)] by blast
  with assms(2,3,5) show ?thesis by (intro that) (auto simp: main_start_def holds_parts_def NewServer_def)
qed

lemma main_start_prefix: "main_start getenv env tr = (r, tr') \<Longrightarrow> prefix tr tr'"
  using New_prefix by (fastforce simp: main_start_def split: sum.splits prod.splits)

lemma serve_run_lives:
  assumes "agent_ok env c R L T" "Load getenv = Inr c" "serve_run env getenv rs x tr"
  shows "within env tr \<Longrightarrow> \<exists>m st. holds_parts c x m st \<and> lives env c rs m st tr"
  using assms(3)
proof (induction rule: serve_run.induct)
  case (installed tr)
  have "lives env c [] (emptyManager c) NewFirecrackerBackend tr"
    using life_run.start [OF installed(1)]
    by (simp add: lives_def ids_old_def requested_def Get_def emptyManager_def)
  then show ?case by (auto simp: holds_parts_def)
next
  case (elsewhere rs x tr tr')
  then show ?case
    using lives_neutral within_prefix extends_prefix unfolding within_def by metis
next
  case (launched rs x tr p tr')
  then obtain m st where "lives env c rs m st tr"
    using within_prefix [OF launched.prems main_start_prefix] by blast
  from main_start_lives [OF assms(1,2) _ this launched.hyps(2)] launched.prems show ?case by (auto simp: within_def)
next
  case (notLaunched rs x tr e tr')
  then obtain m st where "lives env c rs m st tr"
    using within_prefix [OF notLaunched.prems main_start_prefix] by blast
  from main_start_lives [OF assms(1,2) _ this notLaunched.hyps(2)] notLaunched.prems show ?case by (auto simp: within_def)
next
  case (ended rs p tr)
  then show ?case by (auto simp: holds_parts_def)
next
  case (request rs p tr r resp m' st' tr')
  have "within env tr" by (rule within_prefix [OF request.prems ServeHTTP_prefix [OF request.hyps(3)]])
  with request.IH have p: "p_cfg p = c" "s_token (p_server p) = AgentToken c" "lives env c rs (p_manager p) (p_backend p) tr"
    by (auto simp: holds_parts_def)
  from lives_request [OF assms(1) _ p(3,2) request.hyps(2,3) [unfolded p(1)]] request.prems p show ?case
    by (auto simp: holds_parts_def within_def)
next
  case (tick rs p tr ids m' st' tr')
  have "within env tr" by (rule within_prefix [OF tick.prems ReapExpired_prefix [OF tick.hyps(2)]])
  with tick.IH have p: "p_cfg p = c" "s_token (p_server p) = AgentToken c" "lives env c rs (p_manager p) (p_backend p) tr"
    by (auto simp: holds_parts_def)
  from lives_ReapExpired [OF _ p(3) tick.hyps(2) [unfolded p(1)]] tick.prems p show ?case
    by (auto simp: holds_parts_def within_def)
next
  case (beat rs p tr dr tr')
  then have "extends neutral tr tr'" using send_neutral by metis
  with beat show ?case
    using lives_neutral within_prefix extends_prefix unfolding within_def by metis
next
  case (drain rs p tr)
  then show ?case by (auto simp: holds_parts_def SetDraining_def)
qed

section \<open>Properties\<close>

text \<open>
  C1. The program as a whole keeps the promises of its parts. Whatever requests arrive, with the token or without, however
  ticks, heartbeats, a drain, ends of the process and restarts fall between them, and whatever the program answers, the manager and the backend
  of the running process are in a state of the agent's life, for which the budgets, the slots, the files and the packet filter are proved.
  The histories are those of \<open>serve_run\<close> up to a moment where \<open>within\<close> holds, on a host that is \<open>agent_ok\<close>: the activities run one
  after the other and the process ends between two of them; requests with the token ask for less than \<open>2^62\<close>; the disk does not fail; no call to open a
  pty or a console log or to add a rule failed; and the clock did not step back and is before 2262.
\<close>

theorem service_refines_life:
  assumes "agent_ok env c R L T" "Load getenv = Inr c" "within env tr"
    and "serve_run env getenv rs (Some p) tr"
  shows "p_cfg p = c \<and> life_run env c (p_manager p) (p_backend p) tr"
  using serve_run_lives [OF assms(1,2,4,3)] by (auto simp: holds_parts_def lives_def)

text \<open>
  C2. No VM comes from nowhere: in every such history of the program, restarts included, each VM in the table was asked for by a
  \<open>POST /vms\<close> in the log that carried the agent's token, and has the team, the CPUs and the memory of that request.
\<close>

theorem every_vm_was_requested:
  assumes "agent_ok env c R L T" "Load getenv = Inr c" "within env tr"
    and "serve_run env getenv rs (Some p) tr" "Get k (p_manager p) = Some vm"
  shows "\<exists>r\<in>set rs. \<exists>q. Authorization r = ''Bearer '' @ AgentToken c \<and>
    (\<exists>v. muxMatch routes (Method r) (EscapedPath r) = Handler CreateVM v) \<and> validCreate (ReqBody r) = Some q \<and>
    TeamID vm = R_TeamID q \<and> Vcpu vm = R_Vcpu q \<and> RamMb vm = R_RamMb q"
proof -
  have "requested c rs (p_manager p)"
    using serve_run_lives [OF assms(1,2,4,3)] by (auto simp: holds_parts_def lives_def)
  with assms(5) show ?thesis unfolding requested_def asksFor_def by blast
qed

text \<open>
  C3. Without the token nothing can be changed: in every such history, as long as no request carries it, and whatever the requests say, the table
  stays empty and the host keeps exactly the rules and devices it had.
\<close>

theorem intruder_changes_nothing:
  assumes "agent_ok env c R L T" "Load getenv = Inr c" "within env tr"
    and "serve_run env getenv rs x tr" "\<forall>r\<in>set rs. Authorization r \<noteq> ''Bearer '' @ AgentToken c"
  shows "chainAfter L tr = L \<and> tapsAfter T tr = T \<and> (\<forall>p. x = Some p \<longrightarrow> vms (p_manager p) = [])"
proof -
  obtain m st where parts: "holds_parts c x m st" and life: "life_run env c m st tr" "requested c rs m"
    using serve_run_lives [OF assms(1,2,4,3)] unfolding lives_def by blast
  obtain es where es: "mirrors c L T es m tr" using life_run_inv [OF assms(1) life(1)] unfolding life_inv_def by blast
  have none: "mget (vms m) = Map.empty"
  proof
    fix k show "mget (vms m) k = None"
      using life(2) assms(5) by (cases "mget (vms m) k") (auto simp: requested_def Get_def asksFor_def)
  qed
  moreover have "mget es = mget (vms m)" using es by (simp add: mirrors_def)
  ultimately have "es = []" "vms m = []" by simp_all
  with es parts show ?thesis by (auto simp: mirrors_def tableRules_def tableTaps_def holds_parts_def)
qed

section \<open>Examples\<close>

text \<open>Calls in a row of at most \<open>n\<close>, none of the vital ones failed.\<close>

definition briefly :: "nat \<Rightarrow> trace \<Rightarrow> trace \<Rightarrow> bool" where
  "briefly n tr tr' \<longleftrightarrow> (\<exists>ev. tr' = tr @ ev \<and> length ev \<le> n \<and> spared ev)"

lemma spared_simps [simp]:
  "spared []" "spared ((c, e) # ev) \<longleftrightarrow> (vital c \<longrightarrow> e = None) \<and> spared ev" "spared (xs @ ys) \<longleftrightarrow> spared xs \<and> spared ys"
  by (simp_all add: spared_def)

lemma briefly_trans: "briefly i tr tr1 \<Longrightarrow> briefly j tr1 tr' \<Longrightarrow> briefly (i + j) tr tr'"
  unfolding briefly_def by (metis add_mono append_assoc length_append spared_simps(3))

lemma briefly_refl [simp]: "briefly n tr tr"
  by (simp add: briefly_def)

lemma briefly_mono: "briefly i tr tr' \<Longrightarrow> i \<le> j \<Longrightarrow> briefly j tr tr'"
  by (auto simp: briefly_def)

lemma briefly_step: "\<not> vital c \<Longrightarrow> briefly n (tr @ [(c, e)]) tr' \<Longrightarrow> briefly (Suc n) tr tr'"
  using briefly_trans [of 1 tr "tr @ [(c, e)]" n tr'] by (simp add: briefly_def)

lemma spared_appends: "spared (map (\<lambda>a. (iptCall a, None)) steps)"
  by (simp add: spared_def list_all_iff)

lemma setupFirewall_brief:
  assumes "setupFirewall env c nc tr = (None, tr')"
  shows "briefly 8 tr tr'"
proof -
  let ?sys = "(Exec ''sysctl'' [''-w'', ''net.ipv4.ip_forward=1''], None :: oserr option)"
  from assms have "runSteps env (setupFirewallSteps c nc) (tr @ [?sys]) = (None, tr')"
    by (auto simp: setupFirewall_def runCmd_def perform_def Let_def wrapErr_def split: option.splits)
  from runSteps_ok [OF this] show ?thesis
    by (simp add: briefly_def spared_appends) (simp add: setupFirewallSteps_def Let_def)
qed

lemma bootNetwork_brief:
  assumes "bootNetwork env c nc tr = (None, tr')"
  shows "briefly 20 tr tr'"
proof -
  obtain tr1 tr2 where tap: "setupTapDevice env nc tr = (None, tr1)" and fw: "setupFirewall env c nc tr1 = (None, tr2)"
    and cap: "setupBandwidthCap env nc (BandwidthCapMbit c) tr2 = (None, tr')"
    using assms by (auto simp: bootNetwork_def split: prod.splits option.splits)
  have "briefly 6 tr tr1"
    using tap by (auto simp: setupTapDevice_def perform_def performIgnore_eq Let_def briefly_def split: option.splits)
  moreover have "briefly 6 tr2 tr'"
    using cap by (cases "BandwidthCapMbit c \<le> 0")
      (auto simp: setupBandwidthCap_def runCmd_def perform_def Let_def briefly_def split: option.splits if_splits)
  ultimately show ?thesis using briefly_trans [OF briefly_trans [OF _ setupFirewall_brief [OF fw]]] by fastforce
qed

lemma enableControllers_brief: "briefly (length ctrls) tr (snd (enableControllers env p ctrls tr))"
proof (induction ctrls arbitrary: tr)
  case (Cons x ctrls)
  have "briefly (Suc (length ctrls)) tr (snd (enableControllers env p ctrls (tr @ [(WriteFile p (Text x), None)])))"
    by (rule briefly_step [OF _ Cons]) simp
  moreover have "briefly (Suc (length ctrls)) tr (tr @ [(WriteFile p (Text x), e)])" for e
    by (simp add: briefly_def)
  ultimately show ?case by (auto simp: perform_def Let_def split: option.splits)
qed simp

lemma enableInDirs_brief: "briefly (2 * length dirs) tr (snd (enableInDirs env dirs tr))"
proof (induction dirs arbitrary: tr)
  case (Cons d dirs)
  let ?e = "enableControllers env (Join [d, ''cgroup.subtree_control'']) [''+cpu'', ''+memory''] tr"
  have "briefly 2 tr (snd ?e)"
    by (rule briefly_mono [OF enableControllers_brief]) simp
  with briefly_trans [OF this Cons [of "snd ?e"]] briefly_mono [OF this, of "2 + 2 * length dirs"] show ?case
    by (cases ?e) (auto split: option.splits simp del: enableControllers.simps)
qed simp

lemma ensureParentControllers_brief: "briefly 6 tr (snd (ensureParentControllers env tr))"
proof -
  let ?s = "Stat (Join [cgroupMount, ''cgroup.controllers''])"
  have "briefly 4 t (snd (enableInDirs env [cgroupMount, cgroupRoot] t))" for t
    using enableInDirs_brief [of "[cgroupMount, cgroupRoot]"] by (simp del: enableInDirs.simps)
  from briefly_step [OF _ briefly_step [OF _ this]]
  have "briefly 6 tr (snd (enableInDirs env [cgroupMount, cgroupRoot] (tr @ [(?s, None), (MkdirAll cgroupRoot, None)])))"
    by (simp add: numeral_eq_Suc del: enableInDirs.simps)
  moreover have "briefly 6 tr (tr @ [(?s, e)])" "briefly 6 tr (tr @ [(?s, None), (MkdirAll cgroupRoot, e)])" for e
    by (simp_all add: briefly_def)
  ultimately show ?thesis
    by (auto simp: ensureParentControllers_def perform_def Let_def simp del: enableInDirs.simps split: option.splits)
qed

lemma writeLimits_brief: "briefly 2 tr (snd (writeLimits env path v r tr))"
  by (auto simp: writeLimits_def perform_def Let_def briefly_def split: option.splits)

lemma createCgroup_brief: "briefly 10 tr (snd (createCgroup env k v r tr))"
proof (cases "ensureParentControllers env tr")
  case (Pair e tr1)
  let ?p = "Join [cgroupRoot, k]"
  have 1: "briefly 6 tr tr1" using ensureParentControllers_brief [of tr env] Pair by simp
  have "briefly 4 tr1 (tr1 @ [(MkdirAll ?p, x)])" "briefly 4 tr1 (tr1 @ [(MkdirAll ?p, x), (ReadFile f, y)])" for x f y
    by (simp_all add: briefly_def)
  note 2 = briefly_trans [OF 1 this(1)] briefly_trans [OF 1 this(2)]
  have "briefly 2 tr1 (tr1 @ [(MkdirAll ?p, x), (ReadFile f, y)])" for x f y by (simp add: briefly_def)
  note 3 = briefly_trans [OF 1 briefly_trans [OF this writeLimits_brief]]
  show ?thesis
    using briefly_mono [OF 1, of 10] 2 3 Pair
    by (auto simp: createCgroup_def perform_def readText_def Let_def simp del: missingController.simps
      split: option.splits sum.splits)
qed

lemma bootCgroup_brief: "briefly 12 tr (snd (bootCgroup env vm h tr))"
proof -
  let ?cg = "\<lambda>e. createCgroup env (ID vm) (Vcpu vm) (RamMb vm) (tr @ [(MachinePID h, e)])"
  have 1: "briefly 1 tr (tr @ [(MachinePID h, e)])" for e by (simp add: briefly_def)
  have 2: "briefly 11 tr (snd (?cg e))" for e
    using briefly_trans [OF 1 createCgroup_brief] by (rule briefly_mono) simp
  have "briefly 1 t (snd (addProcessToCgroup env p pid t))" for t p pid
    by (simp add: addProcessToCgroup_def perform_def Let_def briefly_def)
  from briefly_trans [OF 2 this] have 3: "briefly 12 tr (snd (addProcessToCgroup env p pid (snd (?cg e))))" for p pid e
    by simp
  show ?thesis
    using briefly_mono [OF 1, of 12] briefly_mono [OF 2 [of None], of 12] 3 [of _ _ None]
    by (auto simp: bootCgroup_def Let_def split: prod.splits option.splits)
qed

lemma host_create_brief:
  assumes "Create host (fcBackend host c) teamID ttl vcpu ramMb m st tr = Some (Inr vm, m', st', tr')"
  shows "briefly 60 tr tr'"
proof -
  let ?t = "tr @ [(TimeNow, None), (TimeNow, None)]"
  obtain root tr1 tr2 vm0 nc m1 where r: "prepareRootfs host (GoldenImagePath (m_cfg m)) root ?t = (None, tr1)"
    and boot: "fcBoot host c vm0 nc root st tr1 = Some (None, vm, st', tr2)" and p: "tr' = snd (persist host m1 vm tr2)"
    using assms by (auto simp: Create_def createLocked_cases Let_def fcBackend_def bind_eq_Some_conv
      split: if_splits prod.splits option.splits)
  have 1: "briefly 4 tr tr1"
    using r by (auto simp: prepareRootfs_def perform_def Let_def briefly_def split: option.splits)
  have 3: "briefly 4 tr2 tr'"
    unfolding p by (auto simp: persist_def perform_def Let_def briefly_def split: option.splits sum.splits)
  from boot have "briefly 41 tr1 tr2"
  proof (cases rule: fcBoot_cases)
    case (ready t1 t2 t3 h pid t4)
    have "briefly 3 t1 t2"
      using ready(2) by (auto simp: bootConsole_def perform_def Let_def briefly_def split: option.splits)
    from briefly_trans [OF bootNetwork_brief [OF ready(1)] this]
    have 2: "briefly 23 tr1 t2" by simp
    have "briefly 3 t2 t3" using bootMachine_ok(3) [OF ready(3)] by (auto simp: briefly_def)
    from briefly_trans [OF 2 this] have 3: "briefly 26 tr1 t3" by simp
    have "briefly 12 t3 t4" using bootCgroup_brief [of t3 host vm0 h] ready(4) by simp
    from briefly_trans [OF 3 this] have 4: "briefly 38 tr1 t4" by simp
    have "briefly 3 t4 tr2"
      using ready(5) by (auto simp: waitForDockerReady_def timeNow_def waitLoop_step Let_def briefly_def)
    from briefly_trans [OF 4 this] show ?thesis by simp
  qed simp_all
  from briefly_trans [OF briefly_trans [OF 1 this] 3] show ?thesis by (rule briefly_mono) simp
qed

text \<open>An environment that loads as the example configuration.\<close>

definition example_getenv :: environ where
  "example_getenv n =
     (case map_of [(''LISTEN_ADDR'', ''10.10.0.2:7777''), (''AGENT_TOKEN'', ''secret''), (''SCHEDULER_URL'', ''https://api''),
        (''GOLDEN_IMAGE_PATH'', ''/img/rootfs.ext4''), (''KERNEL_IMAGE_PATH'', ''/img/vmlinux''),
        (''TAP_IP_BASE'', IP_String (IPv4 172 20 0 0)), (''WIREGUARD_CIDR'', ''10.10.0.0/24''),
        (''VM_STATE_DIR'', ''/vms''), (''HOST_RESERVED_RAM_MB'', ''0'')] n of
      None \<Rightarrow> [] | Some v \<Rightarrow> v)"

lemma Load_example_cfg: "Load example_getenv = Inr example_cfg"
proof -
  have "Atoi ''0'' = Inr 0" by code_simp
  moreover have "IP_String (IPv4 172 20 0 0) \<noteq> []" "Option.bind (ParseIP (IP_String (IPv4 172 20 0 0))) To4 = Some (IPv4 172 20 0 0)"
    by (simp add: IP_String_def) code_simp
  ultimately show ?thesis
    by (simp add: Load_def requiredString_def intEnv_def envOr_def example_getenv_def example_cfg_def time_Second_def
      i64_def Let_def)
qed

lemma host_steady: "steady host tr"
  by (simp add: steady_def kernel_def calm_def)

lemma host_within: "briefly n [] tr \<Longrightarrow> n \<le> 1000 \<Longrightarrow> within host tr"
  using host_steady by (auto simp: within_def briefly_def kernel_def calm_def)

definition example_post :: request where
  "example_post = \<lparr>Method = ''POST'', EscapedPath = ''/vms'', Authorization = ''Bearer secret'', ReqBody = exampleBody\<rparr>"

lemma example_launch:
  obtains p where "main_start example_getenv host [] = (Inr p, [(ReadDir (VMStateDir example_cfg), None)])"
    "p_cfg p = example_cfg" "p_manager p = emptyManager example_cfg"
    "p_backend p = NewFirecrackerBackend" "p_server p = NewServer ''secret'' (RegistryMetricsURL example_cfg)"
proof -
  have "diskEntries [] d = []" for d by (simp add: diskEntries_def)
  then have "New host example_cfg [] = (Inr (emptyManager example_cfg), [(ReadDir (VMStateDir example_cfg), None)])"
    by (simp add: New_def reconcile_def readDir_def Let_def kernel_def emptyManager_def)
  then show ?thesis
    by (intro that) (simp_all add: main_start_def Load_example_cfg, simp_all add: example_cfg_def)
qed

lemma serve_example_post:
  assumes "Create env B ''team'' 60 2 4096 m b tr = Some (Inr vm, m', b', tr')" "s_token s = ''secret''" "\<not> s_draining s"
  shows "\<exists>resp. ServeHTTP env B s example_post m b tr = Some (resp, m', b', tr')" "moderate s example_post"
proof -
  have "muxMatch routes ''POST'' ''/vms'' = Handler CreateVM []"
    using routes_plain [of "[''vms'']"] by (simp add: findMatch_def routes_def plain_seg_def)
  with assms show "\<exists>resp. ServeHTTP env B s example_post m b tr = Some (resp, m', b', tr')"
    using ConstantTimeCompare_iff [of "''Bearer secret''" "''Bearer '' @ s_token s"]
    by (simp add: ServeHTTP_def example_post_def muxServe_def handleCreateVM_def decode_exampleBody)
  show "moderate s example_post" by (simp add: moderate_def example_post_def decode_exampleBody)
qed

lemma host_service:
  obtains p tr vm where "serve_run host example_getenv [example_post] (Some p) tr" "within host tr"
    "Get (ID vm) (p_manager p) = Some vm" "Vcpu vm = 2"
proof -
  let ?m = "emptyManager example_cfg" and ?tr = "[(ReadDir (VMStateDir example_cfg), None)]"
  obtain p where up: "main_start example_getenv host [] = (Inr p, ?tr)" and p: "p_cfg p = example_cfg"
      "p_manager p = ?m" "p_backend p = NewFirecrackerBackend"
      "p_server p = NewServer ''secret'' (RegistryMetricsURL example_cfg)"
    by (rule example_launch)
  have run: "serve_run host example_getenv [] (Some p) ?tr"
    by (rule serve_run.launched [OF serve_run.installed up]) simp
  have "admitted host ?m ?tr 2 4096"
    by (subst admitted_iff) (simp_all add: empty_wf no_wrap_def host_capacity)
  moreover have "snd (freeSlot host ?m)" by (simp add: empty_freeSlot host_capacity)
  ultimately obtain vm m' st' tr' where create: "Create host (fcBackend host example_cfg) ''team'' 60 2 4096 ?m
      NewFirecrackerBackend ?tr = Some (Inr vm, m', st', tr')"
    by (rule kernel_creates [rotated 2]) simp_all
  have tok: "s_token (p_server p) = ''secret''" "\<not> s_draining (p_server p)" by (simp_all add: p NewServer_def)
  obtain resp where "ServeHTTP host (fcBackend host (p_cfg p)) (p_server p) example_post (p_manager p) (p_backend p) ?tr =
      Some (resp, m', st', tr')" using serve_example_post(1) [OF create tok] by (auto simp: p)
  from serve_run.request [OF run serve_example_post(2) [OF create tok] this]
  have "serve_run host example_getenv [example_post] (Some (p\<lparr>p_manager := m', p_backend := st'\<rparr>)) tr'" .
  moreover have "within host tr'"
    by (rule host_within [OF briefly_trans [OF _ host_create_brief [OF create]], of 1]) (simp_all add: briefly_def)
  moreover have "Get (ID vm) m' = Some vm" "Vcpu vm = 2"
    using fc.Create_success(5,6) [OF create] by (auto simp: Get_def withVM_def mget_mput reserved_def)
  ultimately show ?thesis by (intro that [of "p\<lparr>p_manager := m', p_backend := st'\<rparr>" tr' vm]) simp_all
qed

theorem service_refines_life_witness:
  "\<exists>p tr. serve_run host example_getenv [example_post] (Some p) tr \<and> vms (p_manager p) \<noteq> [] \<and>
     life_run host example_cfg (p_manager p) (p_backend p) tr"
proof -
  obtain p tr vm where run: "serve_run host example_getenv [example_post] (Some p) tr" "within host tr"
    "Get (ID vm) (p_manager p) = Some vm" by (rule host_service)
  then have "vms (p_manager p) \<noteq> []" by (auto simp: Get_def)
  with service_refines_life [OF host_agent_ok Load_example_cfg run(2,1)] run show ?thesis by blast
qed

theorem every_vm_was_requested_witness:
  "\<exists>p tr vm. serve_run host example_getenv [example_post] (Some p) tr \<and> Get (ID vm) (p_manager p) = Some vm \<and>
     TeamID vm = ''team'' \<and> Vcpu vm = 2 \<and> RamMb vm = 4096"
proof -
  obtain p tr vm where run: "serve_run host example_getenv [example_post] (Some p) tr" "within host tr"
    "Get (ID vm) (p_manager p) = Some vm" by (rule host_service)
  have "validCreate exampleBody = Some \<lparr>R_TeamID = ''team'', R_TTLMinutes = 60, R_Vcpu = 2, R_RamMb = 4096\<rparr>"
    by (simp add: validCreate_def decode_exampleBody)
  with every_vm_was_requested [OF host_agent_ok Load_example_cfg run(2,1,3)] run show ?thesis
    by (auto simp: example_post_def)
qed

theorem intruder_changes_nothing_witness:
  "\<exists>p tr. serve_run host example_getenv [example_post\<lparr>Authorization := ''Bearer guess''\<rparr>] (Some p) tr \<and>
     vms (p_manager p) = [] \<and> chainAfter [] tr = []"
proof -
  let ?r = "example_post\<lparr>Authorization := ''Bearer guess''\<rparr>" and ?tr = "[(ReadDir (VMStateDir example_cfg), None)]"
  obtain p where up: "main_start example_getenv host [] = (Inr p, ?tr)"
      and p: "p_server p = NewServer ''secret'' (RegistryMetricsURL example_cfg)" by (rule example_launch)
  have run: "serve_run host example_getenv [] (Some p) ?tr"
    by (rule serve_run.launched [OF serve_run.installed up]) simp
  have no: "Authorization ?r \<noteq> ''Bearer '' @ AgentToken example_cfg" "Authorization ?r \<noteq> ''Bearer '' @ s_token (p_server p)"
    by (simp_all add: example_cfg_def p NewServer_def)
  then obtain resp where "ServeHTTP host (fcBackend host (p_cfg p)) (p_server p) ?r (p_manager p) (p_backend p) ?tr =
      Some (resp, p_manager p, p_backend p, ?tr)"
    using ConstantTimeCompare_iff [of "Authorization ?r" "''Bearer '' @ s_token (p_server p)"] by (simp add: ServeHTTP_def)
  from serve_run.request [OF run _ this] no(2) have "serve_run host example_getenv [?r] (Some p) ?tr"
    by (simp add: moderate_def)
  with intruder_changes_nothing [OF host_agent_ok Load_example_cfg _ this] host_within [of 1 ?tr] no(1)
  show ?thesis by (intro exI [of _ p] exI [of _ ?tr]) (simp add: briefly_def)
qed

end
