(* ===== verification/Spec2Isabelle.thy ===== *)
theory Spec2Isabelle
  imports Sequential_Runs Allocator Leaks Service
begin

text \<open>
  The devplat host agent: a daemon on a data-plane host that creates, lists, proxies and destroys
  Firecracker microVMs for a scheduler. This development models the Go code under
  \<open>src/cmd\<close> and \<open>src/internal\<close> and proves its main behaviour.

  \<^bold>\<open>The program.\<close> \<open>cmd/agent/main.go\<close> loads the configuration from the environment, makes the
  Firecracker backend and the VM manager (which reads the state directory to recover from a
  restart), and starts three activities: the HTTP API, the reaper, which destroys VMs past their
  time to live, and the heartbeat, which posts the host's load to the scheduler. The API and
  the reaper call the manager; the manager calls the backend (\<open>Boot\<close>, \<open>Stop\<close>), the host's
  network and cgroup set-up, and its disk state. Each VM has a slot, a small number from
  which its tap device, addresses and port are derived. On a signal the agent drains: it refuses
  new VMs and leaves the running ones alone.

  \<^bold>\<open>How the code is modelled.\<close> Each Go function is a HOL function. State that the code mutates is
  passed in and returned: the manager (\<open>Manager\<close>), the backend's live machines (\<open>FcState\<close>), and the
  trace of the calls made to the outside so far with their results (\<open>World\<close>). What the outside answers
  (the clock, the file system, netlink, iptables, the Firecracker SDK, HTTP) is a record of functions of
  that trace, the argument \<open>env\<close>; a theorem that needs documented behaviour of the outside names it as
  a hypothesis: \<open>clock_ok\<close> (time and timers), \<open>net_ok\<close> (iptables and netlink do what they report),
  \<open>disk_ok\<close> (metadata files can be written and removed and read back as written; \<open>disk_reads\<close> is the part on reading, which says nothing of a
  disk on which a removal or a write of metadata failed), \<open>pids_ok\<close> (process ids are Go integers). Two conditions are on a history and not on the
  host: \<open>within\<close> (so far the clock did not step back, running a program took some time, the year was before
  2262, and no pty, console log or rule was refused) and \<open>e_pipeEnds\<close> (one side of a proxied connection closes it). The packet filter takes
  the reading of an address after \<open>-s\<close> as an argument. Errors are values (\<open>gerr\<close>), Go maps are
  association lists with distinct keys, and their iteration order is the order of the list, over
  which every theorem quantifies. \<open>int\<close> and \<open>int64\<close> are \<^typ>\<open>int\<close> with the wrap-around written
  out (\<open>i64\<close>) wherever the source adds or multiplies; \<open>uint32\<close> addresses and \<open>uint64\<close> counters are words.

  \<^bold>\<open>Theories.\<close>
  \<^item> \<open>Prelude\<close>, \<open>Go_Strings\<close>, \<open>Go_IP\<close>, \<open>Go_Map\<close>, \<open>Go_Path\<close>, \<open>Go_Json\<close>, \<open>Go_Time\<close>, \<open>Go_Http\<close>: what
    the source uses of Go and its standard library: 64-bit integers, errors, \<open>strconv\<close>, \<open>strings\<close>,
    \<open>filepath\<close> (with the laws of \<open>Clean\<close> and \<open>Join\<close>), \<open>net\<close>, maps (the locale \<open>go_map\<close>), \<open>encoding/json\<close> on documents, RFC 3339 times
    and \<open>Duration.String\<close>, constant-time comparison and the routing of \<open>http.ServeMux\<close>.
  \<^item> \<open>World\<close>: the calls to the outside, their trace, the answers. \<open>Disk\<close>: the metadata files a trace leaves.
  \<^item> \<open>Config\<close> (\<open>config.go\<close>), \<open>Hostinfo\<close> (\<open>hostinfo.go\<close>), \<open>Cgroup\<close> (\<open>cgroup.go\<close>): when loading
    succeeds, what is read from \<open>/proc/meminfo\<close>, the order and values of the cgroup writes.
  \<^item> \<open>Network\<close>, \<open>Network_Effects\<close> (\<open>network.go\<close>): the plan of a slot on 32-bit addresses, the
    plans of two slots are disjoint and inside the pool; the effect of the commands on the host's
    rules and devices, what a failed set-up leaves and what a tear-down removes.
  \<^item> \<open>Host_Rules\<close>, \<open>Packet_Filter\<close> (the rules of \<open>network.go\<close> on the host): the rules in their order after every run
    (\<open>net_run\<close>) are the host's own and then those of the VMs in the table; which packets they
    translate, accept and drop, and that an older guest can reach a younger one.
  \<^item> \<open>Vm\<close> (the \<open>VM\<close> type of \<open>manager.go\<close> and \<open>Backend\<close>): the JSON round trip of the metadata and
    the contract of a backend (locale \<open>backend_contract\<close>).
  \<^item> \<open>Firecracker\<close>, \<open>Firecracker_Props\<close> (\<open>firecracker.go\<close>): \<open>Boot\<close> with all its failure branches,
    \<open>Stop\<close>, and the readiness wait, with what each outcome leaves on the host; it keeps the contract
    (interpretation \<open>fc\<close>).
  \<^item> \<open>Manager\<close>, \<open>Manager_Props\<close>, \<open>Lifecycle\<close> (\<open>manager.go\<close>, \<open>rootfs.go\<close>): every operation; the
    bookkeeping invariant \<open>wf_mgr\<close> and the budgets over every run of calls and reaper rounds
    (\<open>mgr_run\<close>), exact admission, Create and Destroy as a round trip, reaping, restart.
  \<^item> \<open>Allocator\<close>: the abstract allocator of slots, CPUs and memory, and that the manager refines it.
  \<^item> \<open>Persistence\<close>: memory and disk agree after every operation, so that a restart after any run finds the
    same VMs; the types of the VMs in the table.
  \<^item> \<open>Restarts\<close>: the agent's life (\<open>life_run\<close>) with restarts among the calls and reaper rounds: budgets, slots, files and
    rules hold together, and the tunnel to each Docker port is open to the WireGuard network only.
  \<^item> \<open>Leaks\<close>: what an operation that failed half way leaves behind and what that does later: a tap device that blocks
    every \<open>Create\<close> until a lower slot is free again, a cgroup and a directory that stay.
  \<^item> \<open>Manager_Concurrent\<close>, \<open>Sequential_Runs\<close>: the critical sections of \<open>manager.go\<close> in any interleaving: slots stay
    exclusive while no VM is destroyed twice at once, \<open>n\<close> overlapping creates commit at most \<open>n\<close> times the
    host, and what happens otherwise; the sequential runs are among these interleavings.
  \<^item> \<open>Regmetrics\<close> (\<open>regmetrics.go\<close>), \<open>Background\<close> (\<open>reaper.go\<close>, \<open>heartbeat.go\<close>): the counters, and the
    two loops over a sequence of ticks.
  \<^item> \<open>Api\<close>, \<open>Api_Props\<close> (\<open>server.go\<close>): authorization, routing, the handlers, what each status means,
    where the port proxy may connect, that every handler returns unless it is in a pipe which both sides keep open (locale \<open>plain_backend\<close>, interpretation \<open>fcp\<close>).
  \<^item> \<open>Agent\<close> (\<open>main.go\<close>): start-up, and the shutdown as a step relation.
  \<^item> \<open>Service\<close>: all parts together. \<open>serve_run\<close> is the program from its installation on: starts and failed starts, requests with any
    header, path and body, reaper rounds, heartbeats, the drain, and ends of the process, in any order, each activity to its end. Every such history
    is a life of the agent (\<open>life_run\<close>) up to any moment where \<open>within\<close> holds, so that the invariants above hold of it; every VM goes back to a request
    with the token, and without the token nothing changes.

  \<^bold>\<open>Bounds and termination.\<close> The only loop of the source that ends through the outside is the readiness
  wait; it is a partial function into \<open>option\<close>, and under \<open>clock_ok\<close> it is proved to return. The pipe of the port proxy may never end, which is an
  outcome of its own (\<open>Piping\<close>). The
  select loops of the reaper and the heartbeat run over a finite sequence of events and say
  whether they returned, panicked or wait. The run theorems ask for requests and capacities up to
  \<open>2^62\<close>, below which no sum wraps; what happens above is shown separately. The disjointness of the network
  plans holds for slots up to \<open>2^30\<close>, where a /30 of each still fits in 32 bits; the theorems on the host's
  rules therefore ask for at most that many CPUs, and for runs without the three console failures and the
  failed rule of \<open>Boot\<close> that leave rules behind (\<open>leakyStages\<close>), which are shown separately. The steps of \<open>life_run\<close> ask
  for fresh ids and times that can be written; the histories of \<open>Service\<close> ask for neither, since both follow from the clock.

  \<^bold>\<open>Not modelled.\<close> Requests that overlap each other or a reaper round, outside \<open>Manager_Concurrent\<close>: the histories of
  \<open>Service\<close> run each activity to its end, and the process does not die inside one. What a removal or a write that failed leaves on the disk. The kernel's connection tracking (a packet carries its state) and rules that others
  put on the host (they are taken not to match the packet in question). Log output and the clock readings that only feed it; the goroutine that copies the
  console and the bytes of a proxied connection; the text of a command's output inside an error and
  the escapes of \<open>%q\<close>; JSON below the level of documents (a body is a document or not one) and the replacement of invalid UTF-8 in its strings, which no id, team or endpoint
  of a VM that came through the API has; the
  rejection of a malformed URL apart from a failing request; the contexts of \<open>handleDeleteVM\<close> and
  \<open>Stop\<close>, which nothing reads. \<open>src/image\<close> and \<open>src/deploy\<close> are scripts and configuration outside
  the agent. Third-party packages are calls to the outside.
\<close>

end
